theory Spec2Isabelle
  imports Main "HOL-Library.Sublist"
begin

section \<open>Python values shared by the build script\<close>

text \<open>
  The exceptions that \<open>scripts/build.py\<close> can raise in the functions modelled below.
  \<open>BuilderError\<close> is the script's own exception class; the others are Python built-ins
  that the script lets escape.
\<close>

datatype py_error =
    BuilderError string
  | KeyError string
  | FileNotFoundError string
  | NotADirectoryError string
  | CalledProcessError int "string list" string string


text \<open>\<open>sep.join(xs)\<close> and \<open>s.split(sep)\<close> for a one-character separator.\<close>

fun join :: "'a list \<Rightarrow> 'a list list \<Rightarrow> 'a list" where
  "join sep [] = []"
| "join sep [x] = x"
| "join sep (x # y # ys) = x @ sep @ join sep (y # ys)"

fun split_on :: "'a \<Rightarrow> 'a list \<Rightarrow> 'a list list" where
  "split_on c [] = [[]]"
| "split_on c (x # xs) =
     (if x = c then [] # split_on c xs
      else (case split_on c xs of [] \<Rightarrow> [[x]] | w # ws \<Rightarrow> (x # w) # ws))"

text \<open>\<open>needle in hay\<close> for two strings: \<open>needle\<close> occurs in \<open>hay\<close> as a substring.\<close>

fun contains :: "'a list \<Rightarrow> 'a list \<Rightarrow> bool" where
  "contains needle [] = (needle = [])"
| "contains needle (h # hs) = (take (length needle) (h # hs) = needle \<or> contains needle hs)"

text \<open>
  A \<open>pathlib\<close> POSIX path: its root (\<open>/\<close> for an absolute path, \<open>//\<close> for exactly two
  leading slashes, empty for a relative path) and its components. \<open>Path(s)\<close> splits the
  string at \<open>/\<close> and drops empty and \<open>.\<close> components; \<open>p / s\<close> appends the components
  of \<open>s\<close>, or is \<open>Path(s)\<close> when \<open>s\<close> is absolute; \<open>str(p)\<close> prints the root and the
  components with \<open>/\<close> between them, and \<open>.\<close> for the empty path.
\<close>

datatype pypath = PyPath (root: string) (parts: "string list")

definition Path :: "string \<Rightarrow> pypath" where
  "Path s =
     PyPath (if take 2 s = ''//'' \<and> take 3 s \<noteq> ''///'' then ''//''
             else if take 1 s = ''/'' then ''/'' else [])
       (filter (\<lambda>c. c \<noteq> [] \<and> c \<noteq> ''.'') (split_on CHR ''/'' s))"

definition truediv_path :: "pypath \<Rightarrow> pypath \<Rightarrow> pypath" where
  "truediv_path p q = (if root q \<noteq> [] then q else PyPath (root p) (parts p @ parts q))"

definition truediv :: "pypath \<Rightarrow> string \<Rightarrow> pypath" where
  "truediv p s = truediv_path p (Path s)"

definition path_str :: "pypath \<Rightarrow> string" where
  "path_str p = (if root p = [] \<and> parts p = [] then ''.'' else root p @ join ''/'' (parts p))"

section \<open>Compression of a prefix: \<open>ModuleBuilder._compress\<close>\<close>

text \<open>
  \<open>arch_mapping\<close> is the class-level dict of \<open>ModuleBuilder\<close>; a dict lookup
  \<open>arch_mapping[host]\<close> raises \<open>KeyError\<close> for a key that is absent.
\<close>

definition arch_mapping :: "(string \<times> string) list" where
  "arch_mapping =
     [(''aarch64-linux-android'', ''arm64''),
      (''arm-linux-androideabi'', ''arm''),
      (''armv7a-linux-androideabi'', ''arm''),
      (''i686-linux-android'', ''x86''),
      (''x86_64-linux-android'', ''x64'')]"

definition BUILD_DIR :: string where
  "BUILD_DIR = ''build''"

text \<open>\<open>compressed_name.format(arch)\<close> for \<open>compressed_name = "cpython-{}.tar.xz"\<close>.\<close>

definition compressed_name :: "string \<Rightarrow> string" where
  "compressed_name arch = ''cpython-'' @ arch @ ''.tar.xz''"

text \<open>\<open>BUILD_DIR / name\<close> printed as a string, for a one-component relative directory.\<close>

definition tarball_path_of :: "string \<Rightarrow> string" where
  "tarball_path_of arch = BUILD_DIR @ ''/'' @ compressed_name arch"

text \<open>
  The files of the build directory are a map from path to content; the content of a
  tarball is the prefix it archives (type \<open>'t\<close>). \<open>_compress\<close> returns the raised error or
  the tarball path, together with the files afterwards. The dict lookup is the first
  statement of the function, so a \<open>KeyError\<close> leaves the files as they were;
  \<open>tarfile.open(path, "w:xz")\<close> creates the file or truncates the one that is there.
\<close>

definition compress :: "(string \<rightharpoonup> 't) \<Rightarrow> 't \<Rightarrow> string \<Rightarrow> (py_error + string) \<times> (string \<rightharpoonup> 't)" where
  "compress files pfx host =
     (case map_of arch_mapping host of
        None \<Rightarrow> (Inl (KeyError host), files)
      | Some magisk_arch \<Rightarrow>
          (let tarball_path = tarball_path_of magisk_arch
           in (Inr tarball_path, files(tarball_path \<mapsto> pfx))))"

section \<open>The file system\<close>

text \<open>
  A file system is the list of its entries, each an absolute path (the list of its
  components) with its node, in the order a directory scan yields them. A regular file
  holds its bytes; a symbolic link holds the path of the entry it points to. Paths are
  canonical: no entry lies below a symbolic link.
\<close>

type_synonym fpath = "string list"

datatype node = File (file_bytes: "char list") | Dir | Symlink (target: fpath)

type_synonym tree = "(fpath \<times> node) list"

definition lookup :: "tree \<Rightarrow> fpath \<Rightarrow> node option" where
  "lookup t p = map_of t p"

text \<open>
  \<open>os.stat\<close> follows symbolic links, at most 40 of them (the kernel's limit; one more is
  the error \<open>ELOOP\<close>). \<open>resolve n t p\<close> is the entry that \<open>p\<close> names after following at most
  \<open>n\<close> links: its path and its node, which is not a link.
\<close>

fun resolve :: "nat \<Rightarrow> tree \<Rightarrow> fpath \<Rightarrow> (fpath \<times> node) option" where
  "resolve 0 t p =
     (case lookup t p of
        None \<Rightarrow> None
      | Some (Symlink q) \<Rightarrow> None
      | Some n \<Rightarrow> Some (p, n))"
| "resolve (Suc k) t p =
     (case lookup t p of
        None \<Rightarrow> None
      | Some (Symlink q) \<Rightarrow> resolve k t q
      | Some n \<Rightarrow> Some (p, n))"

definition stat :: "tree \<Rightarrow> fpath \<Rightarrow> (fpath \<times> node) option" where
  "stat t p = resolve 40 t p"

text \<open>
  The tests of \<open>pathlib\<close>: \<open>is_dir\<close> and \<open>is_file\<close> follow links and answer \<open>False\<close> for a
  path that does not resolve; \<open>is_symlink\<close> looks at the entry itself.
\<close>

definition is_dir :: "tree \<Rightarrow> fpath \<Rightarrow> bool" where
  "is_dir t p = (case stat t p of Some (_, Dir) \<Rightarrow> True | _ \<Rightarrow> False)"

definition is_file :: "tree \<Rightarrow> fpath \<Rightarrow> bool" where
  "is_file t p = (case stat t p of Some (_, File _) \<Rightarrow> True | _ \<Rightarrow> False)"

definition is_symlink :: "tree \<Rightarrow> fpath \<Rightarrow> bool" where
  "is_symlink t p = (case lookup t p of Some (Symlink _) \<Rightarrow> True | _ \<Rightarrow> False)"

definition lexists :: "tree \<Rightarrow> fpath \<Rightarrow> bool" where
  "lexists t p = (lookup t p \<noteq> None)"

text \<open>
  \<open>shutil.rmtree(p)\<close> removes the directory \<open>p\<close> with everything below it;
  \<open>p.unlink()\<close> removes the one entry \<open>p\<close>; \<open>p.write_bytes(data)\<close> replaces the content
  of the file \<open>p\<close>.
\<close>

definition rmtree :: "tree \<Rightarrow> fpath \<Rightarrow> tree" where
  "rmtree t p = filter (\<lambda>e. \<not> prefix p (fst e)) t"

definition unlink :: "tree \<Rightarrow> fpath \<Rightarrow> tree" where
  "unlink t p = filter (\<lambda>e. fst e \<noteq> p) t"

definition write_bytes :: "tree \<Rightarrow> fpath \<Rightarrow> char list \<Rightarrow> tree" where
  "write_bytes t p data = map (\<lambda>e. if fst e = p then (p, File data) else e) t"

section \<open>Debloating a prefix: \<open>ModuleBuilder._debloat\<close>\<close>

text \<open>
  An item of \<open>debloat_patterns\<close> is a string, or a dict with the keys \<open>pattern\<close> and
  \<open>rm_if\<close>.
\<close>

datatype debloat_pattern = Glob string | Conditional (pattern: string) (rm_if: "string list")

text \<open>
  Glob matching is the work of the \<open>wcmatch\<close> library and is a parameter here. In
  general the parameter is the glob itself: for the tree it runs on, the prefix and the
  patterns, read with the flags of \<open>debloat_flags\<close>, a \<open>globber\<close> gives the entries that
  the paths yielded by \<open>prefix.glob(patterns)\<close> name, each by its canonical path, in the
  order they are yielded. Such an entry can be the prefix itself (the pattern \<open>.\<close>), an
  entry reached through a linked directory, or one outside the prefix (a pattern with
  \<open>..\<close>), and what is yielded can depend on the kinds of the entries. The glob is a
  generator that scans directories as the loop proceeds, so it never yields an entry
  that the loop body has removed before: the loops below take the entries yielded for
  the tree they start on and pass over those that are gone when their turn comes.
\<close>

type_synonym globber = "tree \<Rightarrow> fpath \<Rightarrow> string list \<Rightarrow> fpath list"

text \<open>
  The globber of a \<open>matcher\<close>: a matcher says whether a list of patterns selects a path
  relative to the prefix (the empty path for the prefix itself), and the answer depends
  on the patterns and the path only. The glob yields the entries at and below the
  prefix that the patterns select; no pattern selects no entry.
\<close>

type_synonym matcher = "string list \<Rightarrow> fpath \<Rightarrow> bool"

definition glob :: "matcher \<Rightarrow> globber" where
  "glob m t pfx patterns =
     (if patterns = [] then []
      else filter (\<lambda>p. prefix pfx p \<and> m patterns (drop (length pfx) p)) (map fst t))"

text \<open>
  The state of the stage: the tree, and the paths logged as removed, in order.
\<close>

type_synonym debloat_state = "tree \<times> fpath list"

definition remove_step :: "fpath \<Rightarrow> debloat_state \<Rightarrow> debloat_state" where
  "remove_step path s =
     (case s of (t, removed) \<Rightarrow>
        if \<not> lexists t path then s
        else if is_dir t path \<and> \<not> is_symlink t path then (rmtree t path, removed @ [path])
        else (unlink t path, removed @ [path]))"

text \<open>\<open>str.lower\<close> on the ASCII letters, and the three tests of the delete-set.\<close>

definition lower :: "string \<Rightarrow> string" where
  "lower s =
     map (\<lambda>c. case map_of (zip ''ABCDEFGHIJKLMNOPQRSTUVWXYZ'' ''abcdefghijklmnopqrstuvwxyz'') c of
                None \<Rightarrow> c
              | Some l \<Rightarrow> l) s"

definition rm_file :: "string list \<Rightarrow> bool" where
  "rm_file rm \<longleftrightarrow> ''file'' \<in> set (map lower rm)"

definition rm_dir :: "string list \<Rightarrow> bool" where
  "rm_dir rm \<longleftrightarrow> ''dir'' \<in> set (map lower rm)"

definition rm_symlink :: "string list \<Rightarrow> bool" where
  "rm_symlink rm \<longleftrightarrow> ''symlink'' \<in> set (map lower rm)"

definition conditional_step :: "string list \<Rightarrow> fpath \<Rightarrow> debloat_state \<Rightarrow> debloat_state" where
  "conditional_step rm path s =
     (case s of (t, removed) \<Rightarrow>
        if (is_dir t path \<and> \<not> is_symlink t path) \<and> rm_dir rm
        then (rmtree t path, removed @ [path])
        else if (is_symlink t path \<and> rm_symlink rm) \<or> (is_file t path \<and> rm_file rm)
        then (unlink t path, removed @ [path])
        else s)"

definition conditional_rule_by :: "globber \<Rightarrow> fpath \<Rightarrow> debloat_pattern \<Rightarrow> debloat_state \<Rightarrow> debloat_state" where
  "conditional_rule_by g pfx rule s =
     fold (conditional_step (rm_if rule)) (g (fst s) pfx [pattern rule]) s"

fun is_glob :: "debloat_pattern \<Rightarrow> bool" where
  "is_glob (Glob _) = True"
| "is_glob (Conditional _ _) = False"

fun glob_text :: "debloat_pattern \<Rightarrow> string" where
  "glob_text (Glob g) = g"
| "glob_text (Conditional g _) = g"

definition debloat_by :: "globber \<Rightarrow> debloat_pattern list \<Rightarrow> fpath \<Rightarrow> tree \<Rightarrow> debloat_state" where
  "debloat_by g debloat_patterns pfx t =
     (let patterns = map glob_text (filter is_glob debloat_patterns);
          conditional_patterns = filter (\<lambda>r. \<not> is_glob r) debloat_patterns;
          s = fold remove_step (g t pfx patterns) (t, [])
      in fold (conditional_rule_by g pfx) conditional_patterns s)"


definition debloat :: "matcher \<Rightarrow> debloat_pattern list \<Rightarrow> fpath \<Rightarrow> tree \<Rightarrow> debloat_state" where
  "debloat m debloat_patterns pfx t = debloat_by (glob m) debloat_patterns pfx t"

text \<open>
  Notions for the proofs: a tree left by removals from another, the test under which
  \<open>conditional_step\<close> removes a path, and a tree in which a rule finds nothing to remove.
\<close>

definition subtree :: "tree \<Rightarrow> tree \<Rightarrow> bool" where
  "subtree t' t \<longleftrightarrow> (\<exists>P. t' = filter (\<lambda>e. P (fst e)) t)"

definition would_delete :: "string list \<Rightarrow> tree \<Rightarrow> fpath \<Rightarrow> bool" where
  "would_delete rm t path \<longleftrightarrow>
     ((is_dir t path \<and> \<not> is_symlink t path) \<and> rm_dir rm) \<or>
     ((is_symlink t path \<and> rm_symlink rm) \<or> (is_file t path \<and> rm_file rm))"


section \<open>Regular expressions over bytes\<close>

text \<open>
  The two shebang patterns use literals, character classes, concatenation, alternation
  and repetition. \<open>pattern.match(data)\<close> finds a match at the start of \<open>data\<close>, which for
  such patterns exists exactly when some prefix of \<open>data\<close> belongs to the pattern's
  language; \<open>re_match\<close> decides that with derivatives.
\<close>

datatype rexp = Fail | Eps | Chars "char list" | Cat rexp rexp | Or rexp rexp | Many rexp

fun nullable :: "rexp \<Rightarrow> bool" where
  "nullable Fail = False"
| "nullable Eps = True"
| "nullable (Chars cs) = False"
| "nullable (Cat r s) = (nullable r \<and> nullable s)"
| "nullable (Or r s) = (nullable r \<or> nullable s)"
| "nullable (Many r) = True"

fun deriv :: "char \<Rightarrow> rexp \<Rightarrow> rexp" where
  "deriv c Fail = Fail"
| "deriv c Eps = Fail"
| "deriv c (Chars cs) = (if c \<in> set cs then Eps else Fail)"
| "deriv c (Cat r s) =
     (if nullable r then Or (Cat (deriv c r) s) (deriv c s) else Cat (deriv c r) s)"
| "deriv c (Or r s) = Or (deriv c r) (deriv c s)"
| "deriv c (Many r) = Cat (deriv c r) (Many r)"

fun re_match :: "rexp \<Rightarrow> char list \<Rightarrow> bool" where
  "re_match r [] = nullable r"
| "re_match r (c # cs) = (nullable r \<or> re_match (deriv c r) cs)"

text \<open>A pattern that no byte string can match any more.\<close>

fun dead :: "rexp \<Rightarrow> bool" where
  "dead Fail = True"
| "dead Eps = False"
| "dead (Chars cs) = (cs = [])"
| "dead (Cat r s) = (dead r \<or> dead s)"
| "dead (Or r s) = (dead r \<and> dead s)"
| "dead (Many r) = False"

definition lit :: "string \<Rightarrow> rexp" where
  "lit s = foldr (\<lambda>c r. Cat (Chars [c]) r) s Eps"

definition cat :: "rexp list \<Rightarrow> rexp" where
  "cat rs = foldr Cat rs Eps"

definition opt :: "rexp \<Rightarrow> rexp" where
  "opt r = Or r Eps"

definition plus :: "rexp \<Rightarrow> rexp" where
  "plus r = Cat r (Many r)"

text \<open>\<open>\s\<close> in a bytes pattern: space, tab, line feed, carriage return, form feed, vertical tab.\<close>

definition space :: rexp where
  "space = Chars [CHR '' '', CHR 0x09, CHR 0x0A, CHR 0x0D, CHR 0x0C, CHR 0x0B]"

definition digit :: rexp where
  "digit = Chars ''0123456789''"

section \<open>Fixing shebangs: \<open>is_binary\<close> and \<open>ModuleBuilder._fix_shebangs\<close>\<close>

definition python_shebang :: "char list" where
  "python_shebang = ''#!/system/bin/python3'' @ [CHR 0x0A]"

text \<open>
  \<open>^#!\s*/(?:usr/(?:local/)?|)(?:bin|sbin)/(?:env\s+)?python[0-9]*(?:\.[0-9]+)*\<close>
\<close>

definition python_shebang_re :: rexp where
  "python_shebang_re =
     cat [lit ''#!'', Many space, lit ''/'',
          Or (Cat (lit ''usr/'') (opt (lit ''local/''))) Eps,
          Or (lit ''bin'') (lit ''sbin''), lit ''/'',
          opt (Cat (lit ''env'') (plus space)),
          lit ''python'', Many digit, Many (Cat (lit ''.'') (plus digit))]"

definition shell_shebang :: "char list" where
  "shell_shebang = ''#!/system/bin/sh'' @ [CHR 0x0A]"

text \<open>
  \<open>^#!\s*/(?:usr/(?:local/)?|)(?:bin|sbin)/(?:env\s+)?(?:sh|bash|dash)\<close>
\<close>

definition shell_shebang_re :: rexp where
  "shell_shebang_re =
     cat [lit ''#!'', Many space, lit ''/'',
          Or (Cat (lit ''usr/'') (opt (lit ''local/''))) Eps,
          Or (lit ''bin'') (lit ''sbin''), lit ''/'',
          opt (Cat (lit ''env'') (plus space)),
          Or (lit ''sh'') (Or (lit ''bash'') (lit ''dash''))]"

text \<open>
  \<open>TEXT_CHARS\<close> holds the bytes 7, 8, 9, 10, 12, 13, 27 and 0x20 to 0xFF without 0x7F.
  \<open>data.translate(None, TEXT_CHARS)\<close> deletes these bytes, so \<open>is_binary\<close> says whether
  any other byte occurs in \<open>data\<close>.
\<close>

definition TEXT_CHARS :: "char \<Rightarrow> bool" where
  "TEXT_CHARS c \<longleftrightarrow>
     (of_char c :: nat) \<in> {7, 8, 9, 10, 12, 13, 27} \<or>
     (32 \<le> (of_char c :: nat) \<and> (of_char c :: nat) < 256 \<and> (of_char c :: nat) \<noteq> 127)"

definition is_binary :: "char list \<Rightarrow> bool" where
  "is_binary data \<longleftrightarrow> filter (\<lambda>c. \<not> TEXT_CHARS c) data \<noteq> []"

text \<open>
  \<open>fin.readline(size)\<close> on a binary file: the bytes up to and including the first line
  feed, but at most \<open>size\<close> bytes. The \<open>fin.read()\<close> that follows returns the bytes after
  those.
\<close>

fun readline :: "nat \<Rightarrow> char list \<Rightarrow> char list" where
  "readline limit [] = []"
| "readline limit (c # cs) =
     (if limit = 0 then [] else if c = CHR 0x0A then [c] else c # readline (limit - 1) cs)"

text \<open>
  The body of the loop for one file that is opened: the content to write, or \<open>None\<close>
  where the loop goes on to the next file without writing.
\<close>

definition fix_file :: "char list \<Rightarrow> char list option" where
  "fix_file data =
     (let content = readline 1024 data in
      if is_binary content then None
      else if re_match shell_shebang_re content
      then Some (shell_shebang @ drop (length content) data)
      else if re_match python_shebang_re content
      then Some (python_shebang @ drop (length content) data)
      else None)"

text \<open>The state of the stage: the tree, and the paths logged as patched, in order.\<close>

definition fix_step :: "fpath \<Rightarrow> tree \<times> fpath list \<Rightarrow> tree \<times> fpath list" where
  "fix_step path s =
     (case s of (t, patched) \<Rightarrow>
        if \<not> is_file t path \<or> is_symlink t path then s
        else (case lookup t path of
                Some (File data) \<Rightarrow>
                  (case fix_file data of
                     None \<Rightarrow> s
                   | Some new \<Rightarrow> (write_bytes t path new, patched @ [path]))
              | _ \<Rightarrow> s))"

text \<open>
  \<open>prefix_bin.iterdir()\<close> yields the entries directly in the directory that
  \<open>prefix / "bin"\<close> names, and raises when that is no directory.
\<close>

definition children :: "tree \<Rightarrow> fpath \<Rightarrow> fpath list" where
  "children t d = filter (\<lambda>p. p \<noteq> [] \<and> butlast p = d) (map fst t)"

definition fix_shebangs :: "fpath \<Rightarrow> tree \<Rightarrow> py_error + (tree \<times> fpath list)" where
  "fix_shebangs pfx t =
     (let prefix_bin = pfx @ [''bin''] in
      case stat t prefix_bin of
        None \<Rightarrow> Inl (FileNotFoundError (join ''/'' prefix_bin))
      | Some (d, Dir) \<Rightarrow> Inr (fold fix_step (children t d) (t, []))
      | Some (d, _) \<Rightarrow> Inl (NotADirectoryError (join ''/'' prefix_bin)))"

section \<open>Running tools and applying patches: \<open>run\<close> and \<open>CPythonBuilder._apply_patches\<close>\<close>

record CompletedProcess =
  args :: "string list"
  returncode :: int
  stdout :: string
  stderr :: string

text \<open>
  The state of a build as \<open>_apply_patches\<close> changes it: the source tree the tool works
  on (of any type \<open>'s\<close>), the text written to \<open>sys.stdout\<close>, and the commands that \<open>run\<close>
  has logged, in order. An external tool is a function from the tree and the command
  line to its exit code, its two captured outputs and the tree it leaves.
\<close>

record 's build_state =
  src :: 's
  stdout_written :: string
  command_log :: "string list list"

type_synonym 's tool = "'s \<Rightarrow> string list \<Rightarrow> (int \<times> string \<times> string) \<times> 's"

text \<open>
  \<open>run(*command, check=False, capture_output=True, ...)\<close>: logs the command, runs it and
  returns the \<open>CompletedProcess\<close> without raising.
\<close>

definition run_unchecked :: "'s tool \<Rightarrow> 's build_state \<Rightarrow> string list \<Rightarrow> CompletedProcess \<times> 's build_state" where
  "run_unchecked tool st command =
     (case tool (src st) command of
        ((rc, out, err), s') \<Rightarrow>
          (\<lparr>args = command, returncode = rc, stdout = out, stderr = err\<rparr>,
           st\<lparr>src := s', command_log := command_log st @ [command]\<rparr>))"

definition patch_command :: "pypath \<Rightarrow> string list" where
  "patch_command patch =
     [''patch'', ''-Np1'', ''-sr'', ''-'', ''-i'', path_str (truediv_path (Path ''../../'') patch)]"

definition reversed_marker :: string where
  "reversed_marker = ''Reversed (or previously applied) patch detected!''"

text \<open>
  The loop over \<open>PATCHES_DIR.glob("*.patch")\<close>: the entries come in the order the glob
  yields them, each with the answer of \<open>patch.is_file()\<close>. The function returns the
  raised error or \<open>None\<close>, and the state it leaves.
\<close>

fun CPythonBuilder_apply_patches :: "'s tool \<Rightarrow> (pypath \<times> bool) list \<Rightarrow> 's build_state \<Rightarrow> (py_error + unit) \<times> 's build_state" where
  "CPythonBuilder_apply_patches tool [] st = (Inr (), st)"
| "CPythonBuilder_apply_patches tool ((patch, isfile) # rest) st =
     (if isfile then
        (case run_unchecked tool st (patch_command patch) of
           (result, st1) \<Rightarrow>
             (let st2 = st1\<lparr>stdout_written := stdout_written st1 @ stdout result\<rparr> in
              if returncode result = 0 then CPythonBuilder_apply_patches tool rest st2
              else if contains reversed_marker (stdout result) then CPythonBuilder_apply_patches tool rest st2
              else (Inl (CalledProcessError (returncode result) (args result)
                          (stdout result) (stderr result)), st2)))
      else CPythonBuilder_apply_patches tool rest st)"

section \<open>The build environment: \<open>update_env_path\<close> and \<open>CPythonBuilder._create_env\<close>\<close>

text \<open>
  An environment is a dict from variable names to values. \<open>os.pathsep\<close> is \<open>:\<close> on the
  POSIX hosts the build runs on.
\<close>

type_synonym environ = "string \<rightharpoonup> string"

definition pathsep :: string where
  "pathsep = '':''"

text \<open>
  \<open>update_env_path(env, key, *values)\<close> mutates the dict it is given; the model returns
  the updated dict. \<open>env.get(key)\<close> is \<open>None\<close> only for an absent key: a variable set to
  the empty string takes the second branch.
\<close>

definition update_env_path :: "environ \<Rightarrow> string \<Rightarrow> pypath list \<Rightarrow> environ" where
  "update_env_path env key vals =
     (let str_values = map path_str vals
      in case env key of
           None \<Rightarrow> env(key \<mapsto> join pathsep str_values)
         | Some path \<Rightarrow> env(key \<mapsto> join pathsep (str_values @ [path])))"

record CPythonConfig =
  apply_patches :: bool
  build_hosts :: "string list"
  configure_args :: "string list"
  configure_env :: environ
  version :: string

text \<open>
  The process state that \<open>_create_env\<close> reads is \<open>os.environ\<close>. The function works on
  \<open>os.environ.copy()\<close>, so it returns the new environment next to the process state,
  which no statement of it assigns to. \<open>env.update(d)\<close> stores every item of \<open>d\<close>.
\<close>

record process =
  os_environ :: environ

definition dict_update :: "environ \<Rightarrow> environ \<Rightarrow> environ" where
  "dict_update env d = (\<lambda>k. case d k of Some v \<Rightarrow> Some v | None \<Rightarrow> env k)"

definition create_env :: "process \<Rightarrow> CPythonConfig \<Rightarrow> pypath \<Rightarrow> environ \<times> process" where
  "create_env proc config toolchain =
     (let env = os_environ proc;
          env = dict_update env (configure_env config);
          env = update_env_path env ''PATH'' [truediv toolchain ''bin''];
          env = update_env_path env ''LIBRARY_PATH'' [truediv toolchain ''lib'']
      in (env, proc))"

text \<open>
  The entries of a path-list variable, as \<open>iter_env_path\<close> of \<open>module/update-bin.py\<close>
  reads them: \<open>env_path.split(":")\<close>.
\<close>

definition path_entries :: "string \<Rightarrow> string list" where
  "path_entries v = split_on CHR '':'' v"

section \<open>Locating the toolchain: \<open>CPythonBuilder._find_ndk_toolchain\<close>\<close>







section \<open>The metadata file: \<open>parse_module_prop\<close> and \<open>format_module_prop\<close>\<close>

text \<open>
  A Python \<open>str\<close> is a list of Unicode code points. \<open>ustr\<close> writes a \<open>str\<close> from an ASCII
  literal. The file is opened in text mode, which translates \<open>\r\n\<close> and \<open>\r\<close> to \<open>\n\<close>
  (universal newlines) and iterates over the lines, each with its \<open>\n\<close> but possibly the
  last.
\<close>

type_synonym pystr = "nat list"

definition ustr :: "string \<Rightarrow> pystr" where
  "ustr s = map of_char s"

fun universal_newlines :: "pystr \<Rightarrow> pystr" where
  "universal_newlines [] = []"
| "universal_newlines [c] = (if c = 13 then [10] else [c])"
| "universal_newlines (c # d # cs) =
     (if c = 13 \<and> d = 10 then 10 # universal_newlines cs
      else if c = 13 then 10 # universal_newlines (d # cs)
      else c # universal_newlines (d # cs))"

fun file_lines :: "pystr \<Rightarrow> pystr list" where
  "file_lines [] = []"
| "file_lines (c # cs) =
     (if c = 10 then [c] # file_lines cs
      else (case file_lines cs of [] \<Rightarrow> [[c]] | l # ls \<Rightarrow> (c # l) # ls))"

text \<open>
  \<open>str.isspace\<close> for one code point: the characters of bidirectional class WS, B or S,
  or of category Zs. \<open>s.strip()\<close> removes them from both ends.
\<close>

definition isspace :: "nat \<Rightarrow> bool" where
  "isspace c \<longleftrightarrow>
     (9 \<le> c \<and> c \<le> 13) \<or> (28 \<le> c \<and> c \<le> 32) \<or> c = 133 \<or> c = 160 \<or> c = 5760 \<or>
     (8192 \<le> c \<and> c \<le> 8202) \<or> c = 8232 \<or> c = 8233 \<or> c = 8239 \<or> c = 8287 \<or> c = 12288"

definition strip :: "pystr \<Rightarrow> pystr" where
  "strip s = rev (dropWhile isspace (rev (dropWhile isspace s)))"

definition startswith_hash :: "pystr \<Rightarrow> bool" where
  "startswith_hash s = (case s of [] \<Rightarrow> False | c # _ \<Rightarrow> c = 35)"

text \<open>\<open>s.partition("=")\<close>: the part before the first \<open>=\<close>, and the part after it.\<close>

definition partition_eq :: "pystr \<Rightarrow> pystr \<times> pystr" where
  "partition_eq s = (takeWhile (\<lambda>c. c \<noteq> 61) s, drop 1 (dropWhile (\<lambda>c. c \<noteq> 61) s))"

text \<open>
  A \<open>dict\<close> keeps its keys in insertion order: \<open>props[k] = v\<close> replaces the value of a key
  that is present, where it stands, and appends a new key.
\<close>

fun dict_set :: "('k \<times> 'v) list \<Rightarrow> 'k \<Rightarrow> 'v \<Rightarrow> ('k \<times> 'v) list" where
  "dict_set [] k v = [(k, v)]"
| "dict_set ((k', v') # d) k v = (if k' = k then (k, v) # d else (k', v') # dict_set d k v)"

definition parse_line :: "(pystr \<times> pystr) list \<Rightarrow> pystr \<Rightarrow> (pystr \<times> pystr) list" where
  "parse_line props line =
     (let new_line = strip line in
      if startswith_hash new_line then props
      else (let parts = partition_eq new_line in dict_set props (fst parts) (snd parts)))"

definition parse_module_prop :: "pystr \<Rightarrow> (pystr \<times> pystr) list" where
  "parse_module_prop content = foldl parse_line [] (file_lines (universal_newlines content))"

definition format_module_prop :: "(pystr \<times> pystr) list \<Rightarrow> pystr" where
  "format_module_prop props = concat (map (\<lambda>(k, v). k @ [61] @ v @ [10]) props)"

text \<open>
  A plain item is a key and a value that one line \<open>key=value\<close> holds as they are: no
  \<open>=\<close> in the key, no line break in either, no white space at the start or the end of
  the line, and no \<open>#\<close> at its start.
\<close>

definition plain_item :: "pystr \<Rightarrow> pystr \<Rightarrow> bool" where
  "plain_item k v \<longleftrightarrow>
     61 \<notin> set k \<and> 10 \<notin> set (k @ v) \<and> 13 \<notin> set (k @ v) \<and>
     (case k of [] \<Rightarrow> True | c # _ \<Rightarrow> \<not> isspace c \<and> c \<noteq> 35) \<and>
     (case rev v of [] \<Rightarrow> True | c # _ \<Rightarrow> \<not> isspace c)"

section \<open>Example inputs\<close>



text \<open>
  A patch tool on a tree that counts the patches applied to it: \<open>a.patch\<close> applies,
  \<open>b.patch\<close> is reported as applied before, every other patch fails.
\<close>

definition example_patch_tool :: "nat tool" where
  "example_patch_tool applied command =
     (if last command = ''../../patches/a.patch'' then ((0, [], []), Suc applied)
      else if last command = ''../../patches/b.patch''
      then ((1, ''patch: Reversed (or previously applied) patch detected!  Skipping patch.'', []),
            applied)
      else ((1, ''1 out of 1 hunk FAILED'', []), applied))"

definition example_patch :: "string \<Rightarrow> pypath" where
  "example_patch name = PyPath [] [''patches'', name]"

text \<open>
  A matcher for patterns without wildcards: such a pattern selects the one path it
  spells, and the pattern \<open>.\<close> selects the prefix. And a small prefix: a library
  directory with a static library in it, and an executable directory with an
  interpreter and a link to it.
\<close>

definition literal_matcher :: matcher where
  "literal_matcher patterns rel \<longleftrightarrow>
     (if rel = [] then ''.'' else join ''/'' rel) \<in> set patterns"

definition example_prefix :: fpath where
  "example_prefix = [''prefix'']"

definition example_tree :: tree where
  "example_tree =
     [([''prefix''], Dir),
      ([''prefix'', ''lib''], Dir),
      ([''prefix'', ''lib'', ''libz.a''], File ''!<arch>''),
      ([''prefix'', ''bin''], Dir),
      ([''prefix'', ''bin'', ''python3.13''], File ''ELF''),
      ([''prefix'', ''bin'', ''python3''], Symlink [''prefix'', ''bin'', ''python3.13''])]"

text \<open>A prefix whose executable directory holds one file, \<open>run\<close>, with the given bytes.\<close>

definition example_bin_tree :: "char list \<Rightarrow> tree" where
  "example_bin_tree data =
     [([''prefix''], Dir),
      ([''prefix'', ''bin''], Dir),
      ([''prefix'', ''bin'', ''run''], File data)]"

text \<open>A script whose first line is longer than 1024 bytes.\<close>

definition long_script :: "char list" where
  "long_script = ''#!/bin/sh '' @ replicate 1020 (CHR ''x'') @ [CHR 0x0A] @ ''echo''"

section \<open>Properties of compression\<close>

lemma arch_mapping_dom:
  "map_of arch_mapping host \<noteq> None \<longleftrightarrow>
     host \<in> {''aarch64-linux-android'', ''arm-linux-androideabi'', ''armv7a-linux-androideabi'',
             ''i686-linux-android'', ''x86_64-linux-android''}"
proof -
  have "map_of arch_mapping host \<noteq> None \<longleftrightarrow> host \<in> fst ` set arch_mapping"
    by (simp add: map_of_eq_None_iff)
  also have "fst ` set arch_mapping = {''aarch64-linux-android'', ''arm-linux-androideabi'', ''armv7a-linux-androideabi'',
             ''i686-linux-android'', ''x86_64-linux-android''}"
    unfolding arch_mapping_def by (simp only: list.set image_insert image_empty fst_conv)
  finally show ?thesis .
qed

text \<open>
  Claim C6. A host triplet outside the five keys of the architecture table makes
  \<open>_compress\<close> fail (with the \<open>KeyError\<close> of the dict lookup) and leaves every file of
  the build directory as it was, so no tarball is created. A host triplet of the table
  makes \<open>_compress\<close> return the path \<open>build/cpython-<arch>.tar.xz\<close> for the mapped
  short name, and the files afterwards differ from the files before at that one path
  only, which holds the archive of the prefix.
\<close>

theorem compress_unmapped_fails_mapped_one_tarball:
  "(host \<notin> {''aarch64-linux-android'', ''arm-linux-androideabi'', ''armv7a-linux-androideabi'',
              ''i686-linux-android'', ''x86_64-linux-android''} \<longrightarrow>
      compress files pfx host = (Inl (KeyError host), files)) \<and>
   (host \<in> {''aarch64-linux-android'', ''arm-linux-androideabi'', ''armv7a-linux-androideabi'',
              ''i686-linux-android'', ''x86_64-linux-android''} \<longrightarrow>
      (case map_of arch_mapping host of
         None \<Rightarrow> False
       | Some arch \<Rightarrow>
           fst (compress files pfx host) = Inr (''build/cpython-'' @ arch @ ''.tar.xz'') \<and>
           snd (compress files pfx host) (''build/cpython-'' @ arch @ ''.tar.xz'') = Some pfx \<and>
           (\<forall>p. p \<noteq> ''build/cpython-'' @ arch @ ''.tar.xz'' \<longrightarrow>
                snd (compress files pfx host) p = files p) \<and>
           dom (snd (compress files pfx host)) =
             insert (''build/cpython-'' @ arch @ ''.tar.xz'') (dom files)))"
proof (intro conjI impI)
  assume h: "host \<notin> {''aarch64-linux-android'', ''arm-linux-androideabi'',
            ''armv7a-linux-androideabi'', ''i686-linux-android'', ''x86_64-linux-android''}"
  have "map_of arch_mapping host = None"
  proof (rule ccontr)
    assume "map_of arch_mapping host \<noteq> None"
    then have "host \<in> {''aarch64-linux-android'', ''arm-linux-androideabi'',
            ''armv7a-linux-androideabi'', ''i686-linux-android'', ''x86_64-linux-android''}"
      by (rule arch_mapping_dom [THEN iffD1])
    with h show False by (rule notE)
  qed
  then show "compress files pfx host = (Inl (KeyError host), files)"
    by (simp add: compress_def)
next
  assume "host \<in> {''aarch64-linux-android'', ''arm-linux-androideabi'',
            ''armv7a-linux-androideabi'', ''i686-linux-android'', ''x86_64-linux-android''}"
  then have "map_of arch_mapping host \<noteq> None"
    by (rule arch_mapping_dom [THEN iffD2])
  then have "\<exists>arch. map_of arch_mapping host = Some arch"
    by (simp only: not_None_eq)
  then obtain arch where a: "map_of arch_mapping host = Some arch" ..
  have c: "compress files pfx host = (Inr (''build/cpython-'' @ arch @ ''.tar.xz''),
      files(''build/cpython-'' @ arch @ ''.tar.xz'' \<mapsto> pfx))"
    using a by (simp add: compress_def tarball_path_of_def BUILD_DIR_def compressed_name_def Let_def)
  show "case map_of arch_mapping host of
         None \<Rightarrow> False
       | Some arch \<Rightarrow>
           fst (compress files pfx host) = Inr (''build/cpython-'' @ arch @ ''.tar.xz'') \<and>
           snd (compress files pfx host) (''build/cpython-'' @ arch @ ''.tar.xz'') = Some pfx \<and>
           (\<forall>p. p \<noteq> ''build/cpython-'' @ arch @ ''.tar.xz'' \<longrightarrow>
                snd (compress files pfx host) p = files p) \<and>
           dom (snd (compress files pfx host)) =
             insert (''build/cpython-'' @ arch @ ''.tar.xz'') (dom files)"
    unfolding a c by simp
qed

theorem compress_unmapped_fails_mapped_one_tarball_witness:
  "compress Map.empty (1::nat) ''riscv64-linux-android''
     = (Inl (KeyError ''riscv64-linux-android''), Map.empty) \<and>
   fst (compress Map.empty (1::nat) ''x86_64-linux-android'') = Inr ''build/cpython-x64.tar.xz'' \<and>
   dom (snd (compress Map.empty (1::nat) ''x86_64-linux-android'')) = {''build/cpython-x64.tar.xz''}"
proof -
  have n: "''riscv64-linux-android'' \<notin> {''aarch64-linux-android'', ''arm-linux-androideabi'',
      ''armv7a-linux-androideabi'', ''i686-linux-android'', ''x86_64-linux-android''}"
    by simp
  have m: "''x86_64-linux-android'' \<in> {''aarch64-linux-android'', ''arm-linux-androideabi'',
      ''armv7a-linux-androideabi'', ''i686-linux-android'', ''x86_64-linux-android''}"
    by simp
  have a: "map_of arch_mapping ''x86_64-linux-android'' = Some ''x64''"
    by (simp add: arch_mapping_def)
  note t = compress_unmapped_fails_mapped_one_tarball
  note t1 = t [of "''riscv64-linux-android''" Map.empty "1::nat", THEN conjunct1, THEN mp, OF n]
  note t2 = t [of "''x86_64-linux-android''" Map.empty "1::nat", THEN conjunct2, THEN mp, OF m]
  from t1 t2 show ?thesis
    unfolding a by simp
qed

text \<open>
  Claim C10. The architecture table is not injective: the two distinct host triplets
  \<open>arm-linux-androideabi\<close> and \<open>armv7a-linux-androideabi\<close> both map to \<open>arm\<close>, so
  \<open>_compress\<close> computes the same tarball path for both, and compressing the second
  host's prefix after the first leaves the second prefix's archive at that path: the
  first archive is overwritten.
\<close>

theorem compress_arm_hosts_collide:
  "''arm-linux-androideabi'' \<noteq> ''armv7a-linux-androideabi'' \<and>
   map_of arch_mapping ''arm-linux-androideabi'' = map_of arch_mapping ''armv7a-linux-androideabi'' \<and>
   fst (compress files p1 ''arm-linux-androideabi'') = Inr ''build/cpython-arm.tar.xz'' \<and>
   fst (compress files' p2 ''armv7a-linux-androideabi'') = Inr ''build/cpython-arm.tar.xz'' \<and>
   snd (compress files p1 ''arm-linux-androideabi'') ''build/cpython-arm.tar.xz'' = Some p1 \<and>
   snd (compress (snd (compress files p1 ''arm-linux-androideabi'')) p2 ''armv7a-linux-androideabi'')
     = files(''build/cpython-arm.tar.xz'' \<mapsto> p2)"
  by (simp add: compress_def arch_mapping_def tarball_path_of_def BUILD_DIR_def compressed_name_def Let_def)

section \<open>Properties of the file system\<close>

lemma map_of_filter_fst:
  "map_of (filter (\<lambda>e. P (fst e)) t) p = (if P p then map_of t p else None)"
  by (induction t) auto

lemma subtree_refl: "subtree t t"
  unfolding subtree_def by (rule exI [of _ "\<lambda>_. True"]) simp

lemma subtree_trans:
  assumes "subtree t2 t1" and "subtree t1 t0"
  shows "subtree t2 t0"
proof -
  obtain P where P: "t2 = filter (\<lambda>e. P (fst e)) t1"
    using assms(1) unfolding subtree_def by blast
  obtain Q where Q: "t1 = filter (\<lambda>e. Q (fst e)) t0"
    using assms(2) unfolding subtree_def by blast
  have "t2 = filter (\<lambda>e. Q (fst e) \<and> P (fst e)) t0"
    unfolding P Q by simp
  then show ?thesis
    unfolding subtree_def by (intro exI [of _ "\<lambda>p. Q p \<and> P p"])
qed

lemma subtree_rmtree: "subtree (rmtree t p) t"
  unfolding subtree_def rmtree_def by (rule exI [of _ "\<lambda>q. \<not> prefix p q"]) simp

lemma subtree_unlink: "subtree (unlink t p) t"
  unfolding subtree_def unlink_def by (rule exI [of _ "\<lambda>q. q \<noteq> p"]) simp



lemma lookup_subtree:
  assumes "subtree t' t" and "lookup t' p = Some n"
  shows "lookup t p = Some n"
proof -
  obtain P where "t' = filter (\<lambda>e. P (fst e)) t"
    using assms(1) unfolding subtree_def by blast
  with assms(2) show ?thesis
    using map_of_filter_fst [of P t p] by (simp add: lookup_def split: if_splits)
qed


lemma lexists_paths: "lexists t p \<longleftrightarrow> p \<in> set (map fst t)"
  by (simp add: lexists_def lookup_def map_of_eq_None_iff)

lemma resolve_subtree:
  "subtree t' t \<Longrightarrow> resolve k t' p = Some r \<Longrightarrow> resolve k t p = Some r"
proof (induction k arbitrary: p)
  case 0
  then obtain n where n: "lookup t' p = Some n"
    by (cases "lookup t' p") simp_all
  then have "lookup t p = Some n"
    using 0 lookup_subtree by blast
  with 0 n show ?case by simp
next
  case (Suc k)
  then obtain n where n: "lookup t' p = Some n"
    by (cases "lookup t' p") simp_all
  then have n': "lookup t p = Some n"
    using Suc.prems lookup_subtree by blast
  show ?case
  proof (cases n)
    case (Symlink q)
    then have "resolve k t' q = Some r"
      using Suc.prems n by simp
    then have "resolve k t q = Some r"
      using Suc by blast
    then show ?thesis
      using n' Symlink by simp
  qed (use Suc.prems n n' in simp_all)
qed

lemma is_file_subtree: "subtree t' t \<Longrightarrow> is_file t' p \<Longrightarrow> is_file t p"
  unfolding is_file_def stat_def
  by (cases "resolve 40 t' p") (auto dest: resolve_subtree)

lemma is_dir_subtree: "subtree t' t \<Longrightarrow> is_dir t' p \<Longrightarrow> is_dir t p"
  unfolding is_dir_def stat_def
  by (cases "resolve 40 t' p") (auto dest: resolve_subtree)

lemma is_symlink_subtree:
  assumes "subtree t' t" and "lexists t' p"
  shows "is_symlink t' p = is_symlink t p"
proof -
  obtain n where "lookup t' p = Some n"
    using assms(2) unfolding lexists_def by blast
  moreover from this have "lookup t p = Some n"
    using assms(1) lookup_subtree by blast
  ultimately show ?thesis
    by (simp add: is_symlink_def)
qed

lemma glob_subtree:
  assumes "subtree t' t"
  shows "set (glob m t' pfx ps) \<subseteq> set (glob m t pfx ps)"
proof -
  obtain P where "t' = filter (\<lambda>e. P (fst e)) t"
    using assms unfolding subtree_def by blast
  then show ?thesis
    by (auto simp: glob_def)
qed


lemma glob_member:
  "p \<in> set (glob m t pfx ps) \<longleftrightarrow>
     ps \<noteq> [] \<and> lexists t p \<and> prefix pfx p \<and> m ps (drop (length pfx) p)"
  by (auto simp: glob_def lexists_paths)

section \<open>Properties of debloating\<close>



lemma would_delete_subtree:
  assumes "subtree t' t" and "lexists t' p" and "would_delete rm t' p"
  shows "would_delete rm t p"
  using assms is_symlink_subtree [OF assms(1,2)] is_dir_subtree [OF assms(1)]
    is_file_subtree [OF assms(1)]
  unfolding would_delete_def by blast

lemma conditional_step_eq:
  "conditional_step rm p (t, removed) =
     (if would_delete rm t p
      then (if (is_dir t p \<and> \<not> is_symlink t p) \<and> rm_dir rm then rmtree t p else unlink t p,
            removed @ [p])
      else (t, removed))"
  by (auto simp: conditional_step_def would_delete_def)

lemma conditional_step_subtree: "subtree (fst (conditional_step rm p s)) (fst s)"
  by (cases s) (simp add: conditional_step_eq subtree_rmtree subtree_unlink subtree_refl)


lemma conditional_step_id:
  "\<not> would_delete rm (fst s) p \<Longrightarrow> conditional_step rm p s = s"
  by (cases s) (simp add: conditional_step_eq)

lemma fold_conditional_subtree:
  "subtree (fst (fold (conditional_step rm) ps s)) (fst s)"
proof (induction ps arbitrary: s)
  case Nil
  show ?case by (simp add: subtree_refl)
next
  case (Cons p ps)
  have "subtree (fst (fold (conditional_step rm) ps (conditional_step rm p s)))
      (fst (conditional_step rm p s))"
    by (rule Cons.IH)
  then show ?case
    using conditional_step_subtree [of rm p s] by (simp add: subtree_trans)
qed


lemma conditional_rule_by_subtree: "subtree (fst (conditional_rule_by g pfx rule s)) (fst s)"
  unfolding conditional_rule_by_def by (rule fold_conditional_subtree)









lemma remove_step_subtree: "subtree (fst (remove_step p s)) (fst s)"
  by (cases s) (simp add: remove_step_def subtree_rmtree subtree_unlink subtree_refl)


lemma fold_remove_subtree: "subtree (fst (fold remove_step ps s)) (fst s)"
proof (induction ps arbitrary: s)
  case Nil
  show ?case by (simp add: subtree_refl)
next
  case (Cons p ps)
  have "subtree (fst (fold remove_step ps (remove_step p s))) (fst (remove_step p s))"
    by (rule Cons.IH)
  then show ?case
    using remove_step_subtree [of p s] by (simp add: subtree_trans)
qed




lemma lookup_rmtree_other: "\<not> prefix q p \<Longrightarrow> lookup (rmtree t q) p = lookup t p"
  using map_of_filter_fst [of "\<lambda>x. \<not> prefix q x" t p] by (simp add: lookup_def rmtree_def)

lemma lookup_unlink_other: "q \<noteq> p \<Longrightarrow> lookup (unlink t q) p = lookup t p"
  using map_of_filter_fst [of "\<lambda>x. x \<noteq> q" t p] by (simp add: lookup_def unlink_def)

lemma resolve_missing: "lookup t q = None \<Longrightarrow> resolve k t q = None"
  by (cases k) simp_all

lemma resolve_file: "lookup t q = Some (File x) \<Longrightarrow> resolve k t q = Some (q, File x)"
  by (cases k) simp_all

lemma resolve_dir: "lookup t q = Some Dir \<Longrightarrow> resolve k t q = Some (q, Dir)"
  by (cases k) simp_all

lemma would_delete_lexists: "would_delete rm t q \<Longrightarrow> lexists t q"
  by (cases "lookup t q")
    (auto simp: would_delete_def is_dir_def is_file_def is_symlink_def stat_def lexists_def
      resolve_missing)

lemma kind_not_deleted:
  assumes "case lookup t q of
             Some (File _) \<Rightarrow> \<not> rm_file rm
           | Some Dir \<Rightarrow> \<not> rm_dir rm
           | Some (Symlink _) \<Rightarrow> \<not> rm_symlink rm \<and> \<not> (is_file t q \<and> rm_file rm)
           | None \<Rightarrow> True"
  shows "\<not> would_delete rm t q"
proof (cases "lookup t q")
  case None
  then have "\<not> lexists t q"
    by (simp add: lexists_def)
  then show ?thesis
    using would_delete_lexists by blast
next
  case (Some n)
  then show ?thesis
    using assms
    by (cases n)
      (simp_all add: would_delete_def is_dir_def is_file_def is_symlink_def stat_def
        resolve_file resolve_dir)
qed

lemma conditional_step_keeps:
  assumes "subtree (fst s) t" and "prefix q p \<longrightarrow> \<not> would_delete rm t q"
  shows "lookup (fst (conditional_step rm q s)) p = lookup (fst s) p"
proof (cases "would_delete rm (fst s) q")
  case False
  then show ?thesis
    by (simp add: conditional_step_id)
next
  case True
  then have "would_delete rm t q"
    using would_delete_subtree [OF assms(1) would_delete_lexists] by blast
  then have "\<not> prefix q p"
    using assms(2) by blast
  moreover from this have "q \<noteq> p"
    by auto
  ultimately show ?thesis
    by (cases s) (simp add: conditional_step_eq lookup_rmtree_other lookup_unlink_other)
qed

lemma fold_conditional_keeps:
  assumes "subtree (fst s) t" and "\<forall>q \<in> set qs. prefix q p \<longrightarrow> \<not> would_delete rm t q"
  shows "lookup (fst (fold (conditional_step rm) qs s)) p = lookup (fst s) p"
  using assms
proof (induction qs arbitrary: s)
  case Nil
  then show ?case by simp
next
  case (Cons q qs)
  have "subtree (fst (conditional_step rm q s)) t"
    using conditional_step_subtree [of rm q s] Cons.prems(1) by (rule subtree_trans)
  then have "lookup (fst (fold (conditional_step rm) qs (conditional_step rm q s))) p =
      lookup (fst (conditional_step rm q s)) p"
    using Cons.prems(2) by (intro Cons.IH) simp_all
  then show ?case
    using conditional_step_keeps [OF Cons.prems(1), of q p rm] Cons.prems(2) by simp
qed

lemma conditional_rule_by_keeps:
  assumes "subtree (fst s) t"
    and "\<forall>q \<in> set (g (fst s) pfx [pattern r]). prefix q p \<longrightarrow> \<not> would_delete (rm_if r) t q"
  shows "lookup (fst (conditional_rule_by g pfx r s)) p = lookup (fst s) p"
  unfolding conditional_rule_by_def
  using assms by (rule fold_conditional_keeps)

lemma fold_rules_by_keeps:
  assumes "subtree (fst s) t"
    and "\<forall>r \<in> set rs. \<forall>t'. subtree t' t \<longrightarrow>
           (\<forall>q \<in> set (g t' pfx [pattern r]). prefix q p \<longrightarrow> \<not> would_delete (rm_if r) t q)"
  shows "lookup (fst (fold (conditional_rule_by g pfx) rs s)) p = lookup (fst s) p"
  using assms
proof (induction rs arbitrary: s)
  case Nil
  then show ?case by simp
next
  case (Cons r rs)
  have "subtree (fst (conditional_rule_by g pfx r s)) t"
    using conditional_rule_by_subtree [of g pfx r s] Cons.prems(1) by (rule subtree_trans)
  then have "lookup (fst (fold (conditional_rule_by g pfx) rs (conditional_rule_by g pfx r s))) p =
      lookup (fst (conditional_rule_by g pfx r s)) p"
    using Cons.prems(2) by (intro Cons.IH) simp_all
  moreover have "\<forall>q \<in> set (g (fst s) pfx [pattern r]).
      prefix q p \<longrightarrow> \<not> would_delete (rm_if r) t q"
    using Cons.prems by simp
  then have "lookup (fst (conditional_rule_by g pfx r s)) p = lookup (fst s) p"
    using Cons.prems(1) by (intro conditional_rule_by_keeps)
  ultimately show ?case
    by simp
qed

lemma remove_step_keeps:
  "\<not> prefix q p \<Longrightarrow> lookup (fst (remove_step q s)) p = lookup (fst s) p"
  by (cases s) (auto simp: remove_step_def lookup_rmtree_other lookup_unlink_other)

lemma fold_remove_keeps:
  "\<forall>q \<in> set qs. \<not> prefix q p \<Longrightarrow> lookup (fst (fold remove_step qs s)) p = lookup (fst s) p"
  by (induction qs arbitrary: s) (simp_all add: remove_step_keeps)

text \<open>
  Claim C1, as the code has it. The claim as stated fails: an entry that a conditional
  rule selects and whose kind is not in the rule's delete-set is removed all the same
  when another rule removes it, or when a rule removes a directory above it. What
  holds, for every glob: an entry survives \<open>_debloat\<close> with its node unchanged when, on
  the tree and on every tree that removals leave of it, the glob of the unconditional
  patterns yields neither the entry nor a directory above it (the prefix included), and
  whenever the glob of a conditional rule yields the entry or a directory above it, the
  rule's delete-set is without the kind of what is yielded (for a symbolic link that
  resolves to a regular file, also without \<open>file\<close>).
\<close>

theorem debloat_keeps_entry:
  assumes "lookup t p = Some n"
    and "\<forall>t' q. subtree t' t \<and> prefix q p \<longrightarrow>
           q \<notin> set (g t' pfx (map glob_text (filter is_glob rules)))"
    and "\<forall>r t' q. r \<in> set rules \<and> \<not> is_glob r \<and> subtree t' t \<and> prefix q p \<and>
             q \<in> set (g t' pfx [pattern r]) \<longrightarrow>
           (case lookup t q of
              Some (File _) \<Rightarrow> \<not> rm_file (rm_if r)
            | Some Dir \<Rightarrow> \<not> rm_dir (rm_if r)
            | Some (Symlink _) \<Rightarrow> \<not> rm_symlink (rm_if r) \<and> \<not> (is_file t q \<and> rm_file (rm_if r))
            | None \<Rightarrow> True)"
  shows "lookup (fst (debloat_by g rules pfx t)) p = Some n"
proof -
  let ?patterns = "map glob_text (filter is_glob rules)"
  let ?conditional = "filter (\<lambda>r. \<not> is_glob r) rules"
  let ?s1 = "fold remove_step (g t pfx ?patterns) (t, [])"
  have "\<forall>q \<in> set (g t pfx ?patterns). \<not> prefix q p"
    using assms(2) subtree_refl [of t] by blast
  then have one: "lookup (fst ?s1) p = lookup t p"
    using fold_remove_keeps [of "g t pfx ?patterns" p "(t, [])"] by simp
  have sub: "subtree (fst ?s1) t"
    using fold_remove_subtree [of "g t pfx ?patterns" "(t, [])"] by simp
  have "\<forall>r \<in> set ?conditional. \<forall>t'. subtree t' t \<longrightarrow>
           (\<forall>q \<in> set (g t' pfx [pattern r]). prefix q p \<longrightarrow> \<not> would_delete (rm_if r) t q)"
  proof (intro ballI allI impI)
    fix r t' q
    assume "r \<in> set ?conditional" and "subtree t' t"
      and "q \<in> set (g t' pfx [pattern r])" and "prefix q p"
    then have "case lookup t q of
              Some (File _) \<Rightarrow> \<not> rm_file (rm_if r)
            | Some Dir \<Rightarrow> \<not> rm_dir (rm_if r)
            | Some (Symlink _) \<Rightarrow> \<not> rm_symlink (rm_if r) \<and> \<not> (is_file t q \<and> rm_file (rm_if r))
            | None \<Rightarrow> True"
      using assms(3) by simp
    then show "\<not> would_delete (rm_if r) t q"
      by (rule kind_not_deleted)
  qed
  then have "lookup (fst (fold (conditional_rule_by g pfx) ?conditional ?s1)) p =
      lookup (fst ?s1) p"
    using sub by (intro fold_rules_by_keeps)
  then show ?thesis
    using one assms(1) by (simp add: debloat_by_def Let_def)
qed

theorem debloat_keeps_entry_witness:
  "lookup (fst (debloat_by (glob literal_matcher)
       [Glob ''share'', Conditional ''lib/libz.a'' [''dir'', ''symlink'']]
       example_prefix example_tree)) [''prefix'', ''lib'', ''libz.a''] = Some (File ''!<arch>'')"
proof -
  have g1: "glob literal_matcher example_tree example_prefix
      (map glob_text (filter is_glob [Glob ''share'', Conditional ''lib/libz.a'' [''dir'', ''symlink'']])) = []"
    by (simp add: glob_def literal_matcher_def example_tree_def example_prefix_def)
  have g2: "glob literal_matcher example_tree example_prefix [''lib/libz.a''] =
      [[''prefix'', ''lib'', ''libz.a'']]"
    by (simp add: glob_def literal_matcher_def example_tree_def example_prefix_def)
  have l: "lookup example_tree [''prefix'', ''lib'', ''libz.a''] = Some (File ''!<arch>'')"
    by (simp add: lookup_def example_tree_def)
  have r: "\<not> rm_file [''dir'', ''symlink'']"
    by (simp add: rm_file_def lower_def)
  have h2: "\<forall>t' q. subtree t' example_tree \<and> prefix q [''prefix'', ''lib'', ''libz.a''] \<longrightarrow>
      q \<notin> set (glob literal_matcher t' example_prefix
        (map glob_text (filter is_glob [Glob ''share'', Conditional ''lib/libz.a'' [''dir'', ''symlink'']])))"
  proof (intro allI impI, elim conjE)
    fix t' q
    assume "subtree t' example_tree"
    then have "set (glob literal_matcher t' example_prefix
        (map glob_text (filter is_glob [Glob ''share'', Conditional ''lib/libz.a'' [''dir'', ''symlink'']])))
      \<subseteq> {}"
      using glob_subtree [of t' example_tree literal_matcher example_prefix] g1 by fastforce
    then show "q \<notin> set (glob literal_matcher t' example_prefix
        (map glob_text (filter is_glob [Glob ''share'', Conditional ''lib/libz.a'' [''dir'', ''symlink'']])))"
      by blast
  qed
  have h3: "\<forall>r t' q. r \<in> set [Glob ''share'', Conditional ''lib/libz.a'' [''dir'', ''symlink'']] \<and>
        \<not> is_glob r \<and> subtree t' example_tree \<and> prefix q [''prefix'', ''lib'', ''libz.a''] \<and>
        q \<in> set (glob literal_matcher t' example_prefix [pattern r]) \<longrightarrow>
           (case lookup example_tree q of
              Some (File _) \<Rightarrow> \<not> rm_file (rm_if r)
            | Some Dir \<Rightarrow> \<not> rm_dir (rm_if r)
            | Some (Symlink _) \<Rightarrow> \<not> rm_symlink (rm_if r) \<and> \<not> (is_file example_tree q \<and> rm_file (rm_if r))
            | None \<Rightarrow> True)"
  proof (intro allI impI, elim conjE)
    fix r t' q
    assume "r \<in> set [Glob ''share'', Conditional ''lib/libz.a'' [''dir'', ''symlink'']]"
      and "\<not> is_glob r"
    then have r': "r = Conditional ''lib/libz.a'' [''dir'', ''symlink'']"
      by auto
    assume "subtree t' example_tree"
      and "q \<in> set (glob literal_matcher t' example_prefix [pattern r])"
    then have "q \<in> set (glob literal_matcher example_tree example_prefix [pattern r])"
      using glob_subtree [of t' example_tree literal_matcher example_prefix "[pattern r]"] by blast
    then have "q = [''prefix'', ''lib'', ''libz.a'']"
      unfolding r' using g2 by simp
    then show "case lookup example_tree q of
              Some (File _) \<Rightarrow> \<not> rm_file (rm_if r)
            | Some Dir \<Rightarrow> \<not> rm_dir (rm_if r)
            | Some (Symlink _) \<Rightarrow> \<not> rm_symlink (rm_if r) \<and> \<not> (is_file example_tree q \<and> rm_file (rm_if r))
            | None \<Rightarrow> True"
      using l r r' by simp
  qed
  show ?thesis
    by (rule debloat_keeps_entry [where g = "glob literal_matcher" and pfx = example_prefix
          and rules = "[Glob ''share'', Conditional ''lib/libz.a'' [''dir'', ''symlink'']]",
          OF l h2 h3])
qed

theorem debloat_keeps_entry_counterexample:
  "[''prefix'', ''lib'', ''libz.a''] \<in> set (glob literal_matcher example_tree example_prefix
       [pattern (Conditional ''lib/libz.a'' [''dir''])]) \<and>
   lookup example_tree [''prefix'', ''lib'', ''libz.a''] = Some (File ''!<arch>'') \<and>
   ''file'' \<notin> set (map lower (rm_if (Conditional ''lib/libz.a'' [''dir'']))) \<and>
   lookup (fst (debloat literal_matcher
       [Conditional ''lib/libz.a'' [''dir''], Conditional ''lib'' [''dir'']]
       example_prefix example_tree)) [''prefix'', ''lib'', ''libz.a''] = None"
  by code_simp

text \<open>
  The file test of a conditional rule follows symbolic links, the directory test does
  not: a link to a regular file is unlinked by a rule whose delete-set holds \<open>file\<close> and
  not \<open>symlink\<close>, while its target stays.
\<close>

lemma debloat_unlinks_link_to_file:
  "debloat literal_matcher [Conditional ''bin/python3'' [''file'']] example_prefix example_tree =
     ([([''prefix''], Dir),
       ([''prefix'', ''lib''], Dir),
       ([''prefix'', ''lib'', ''libz.a''], File ''!<arch>''),
       ([''prefix'', ''bin''], Dir),
       ([''prefix'', ''bin'', ''python3.13''], File ''ELF'')],
      [[''prefix'', ''bin'', ''python3'']])"
  by code_simp

text \<open>
  The pattern \<open>.\<close> yields the prefix itself, and everything in the prefix goes with it:
  a directory above every entry of the prefix is yielded then, so no entry survives.
\<close>

lemma debloat_dot_removes_prefix:
  "debloat literal_matcher [Glob ''.''] example_prefix example_tree = ([], [[''prefix'']])"
  by code_simp

section \<open>Properties of the shebang patterns\<close>

lemma dead_not_nullable: "dead r \<Longrightarrow> \<not> nullable r"
  by (induction r) auto

lemma dead_deriv: "dead r \<Longrightarrow> dead (deriv c r)"
  by (induction r) (auto simp: dead_not_nullable)

lemma dead_no_match: "dead r \<Longrightarrow> \<not> re_match r s"
  by (induction s arbitrary: r) (auto simp: dead_not_nullable dead_deriv)

lemma shell_re_system: "\<not> re_match shell_shebang_re (''#!/sy'' @ rest)"
proof -
  have "dead (deriv CHR ''y'' (deriv CHR ''s'' (deriv CHR ''/'' (deriv CHR ''!''
      (deriv CHR ''#'' shell_shebang_re)))))"
    by (simp add: shell_shebang_re_def cat_def lit_def opt_def plus_def space_def)
  then have "\<not> re_match (deriv CHR ''y'' (deriv CHR ''s'' (deriv CHR ''/'' (deriv CHR ''!''
      (deriv CHR ''#'' shell_shebang_re))))) rest"
    by (rule dead_no_match)
  moreover have "\<not> nullable shell_shebang_re"
    "\<not> nullable (deriv CHR ''#'' shell_shebang_re)"
    "\<not> nullable (deriv CHR ''!'' (deriv CHR ''#'' shell_shebang_re))"
    "\<not> nullable (deriv CHR ''/'' (deriv CHR ''!'' (deriv CHR ''#'' shell_shebang_re)))"
    "\<not> nullable (deriv CHR ''s'' (deriv CHR ''/'' (deriv CHR ''!''
      (deriv CHR ''#'' shell_shebang_re))))"
    by (simp_all add: shell_shebang_re_def cat_def lit_def opt_def plus_def space_def)
  ultimately show ?thesis
    by simp
qed

lemma python_re_system: "\<not> re_match python_shebang_re (''#!/sy'' @ rest)"
proof -
  have "dead (deriv CHR ''y'' (deriv CHR ''s'' (deriv CHR ''/'' (deriv CHR ''!''
      (deriv CHR ''#'' python_shebang_re)))))"
    by (simp add: python_shebang_re_def cat_def lit_def opt_def plus_def space_def digit_def)
  then have "\<not> re_match (deriv CHR ''y'' (deriv CHR ''s'' (deriv CHR ''/'' (deriv CHR ''!''
      (deriv CHR ''#'' python_shebang_re))))) rest"
    by (rule dead_no_match)
  moreover have "\<not> nullable python_shebang_re"
    "\<not> nullable (deriv CHR ''#'' python_shebang_re)"
    "\<not> nullable (deriv CHR ''!'' (deriv CHR ''#'' python_shebang_re))"
    "\<not> nullable (deriv CHR ''/'' (deriv CHR ''!'' (deriv CHR ''#'' python_shebang_re)))"
    "\<not> nullable (deriv CHR ''s'' (deriv CHR ''/'' (deriv CHR ''!''
      (deriv CHR ''#'' python_shebang_re))))"
    by (simp_all add: python_shebang_re_def cat_def lit_def opt_def plus_def space_def digit_def)
  ultimately show ?thesis
    by simp
qed

lemma readline_system:
  "readline 1024 (''#!/sy'' @ rest) = ''#!/sy'' @ readline 1019 rest"
  by simp

lemma fix_file_system: "fix_file (''#!/sy'' @ rest) = None"
  unfolding fix_file_def readline_system Let_def
  using shell_re_system python_re_system by simp

lemma fix_file_target:
  assumes "prefix ''#!/system/bin/'' data"
  shows "fix_file data = None"
proof -
  obtain rest where "data = ''#!/system/bin/'' @ rest"
    using assms unfolding prefix_def by blast
  then have "data = ''#!/sy'' @ (''stem/bin/'' @ rest)"
    by simp
  then show ?thesis
    by (simp only: fix_file_system)
qed

lemma fix_file_Some:
  assumes "fix_file data = Some new"
  shows "new = shell_shebang @ drop (length (readline 1024 data)) data \<or>
         new = python_shebang @ drop (length (readline 1024 data)) data"
  using assms by (auto simp: fix_file_def Let_def split: if_splits)

lemma fix_file_fixed:
  assumes "fix_file data = Some new"
  shows "fix_file new = None"
proof -
  have "prefix ''#!/system/bin/'' new"
    using fix_file_Some [OF assms] by (auto simp: shell_shebang_def python_shebang_def)
  then show ?thesis
    by (rule fix_file_target)
qed

lemma fix_file_binary: "is_binary (readline 1024 data) \<Longrightarrow> fix_file data = None"
  by (simp add: fix_file_def)

lemma readline_prefix: "readline n data = take (length (readline n data)) data"
  by (induction data arbitrary: n) auto

lemma readline_length: "length (readline n data) \<le> n"
proof (induction data arbitrary: n)
  case Nil
  show ?case by simp
next
  case (Cons c cs)
  have "length (readline (n - 1) cs) \<le> n - 1"
    by (rule Cons.IH)
  then show ?case by auto
qed

lemma readline_rest:
  "length (takeWhile (\<lambda>c. c \<noteq> CHR 0x0A) data) < n \<Longrightarrow>
     drop (length (readline n data)) data = drop 1 (dropWhile (\<lambda>c. c \<noteq> CHR 0x0A) data)"
  by (induction data arbitrary: n) auto

section \<open>Properties of the shebang stage\<close>

lemma lookup_write_bytes:
  "lookup (write_bytes t p new) q =
     (if q = p then map_option (\<lambda>_. File new) (lookup t p) else lookup t q)"
  unfolding lookup_def write_bytes_def by (induction t) auto

lemma is_file_File: "lookup t p = Some (File data) \<Longrightarrow> is_file t p \<and> \<not> is_symlink t p"
  by (simp add: is_file_def is_symlink_def stat_def resolve_file)

lemma fix_step_other: "q \<noteq> p \<Longrightarrow> lookup (fst (fix_step q s)) p = lookup (fst s) p"
  by (cases s) (auto simp: fix_step_def lookup_write_bytes split: option.splits node.splits)

lemma fix_step_log: "set (snd s) \<subseteq> set (snd (fix_step q s))"
  by (cases s) (auto simp: fix_step_def split: option.splits node.splits)

lemma fix_step_unfixable:
  assumes "lookup (fst s) p = Some (File data)" and "fix_file data = None"
  shows "lookup (fst (fix_step q s)) p = Some (File data) \<and>
         (p \<notin> set (snd s) \<longrightarrow> p \<notin> set (snd (fix_step q s)))"
proof (cases "q = p")
  case True
  then show ?thesis
    using assms by (cases s) (simp add: fix_step_def)
next
  case False
  then have "lookup (fst (fix_step q s)) p = Some (File data)"
    using assms(1) by (simp add: fix_step_other)
  moreover have "set (snd (fix_step q s)) \<subseteq> set (snd s) \<union> {q}"
    by (cases s) (auto simp: fix_step_def split: option.splits node.splits)
  ultimately show ?thesis
    using False by auto
qed

lemma fold_fix_unfixable:
  assumes "lookup (fst s) p = Some (File data)" and "fix_file data = None"
  shows "lookup (fst (fold fix_step qs s)) p = Some (File data) \<and>
         (p \<notin> set (snd s) \<longrightarrow> p \<notin> set (snd (fold fix_step qs s)))"
  using assms(1)
proof (induction qs arbitrary: s)
  case Nil
  then show ?case by simp
next
  case (Cons q qs)
  note step = fix_step_unfixable [OF Cons.prems assms(2), of q]
  from step have "lookup (fst (fix_step q s)) p = Some (File data)"
    by simp
  from Cons.IH [OF this] step show ?case
    by simp
qed

lemma fold_fix_log: "set (snd s) \<subseteq> set (snd (fold fix_step qs s))"
proof (induction qs arbitrary: s)
  case Nil
  show ?case by simp
next
  case (Cons q qs)
  have "set (snd (fix_step q s)) \<subseteq> set (snd (fold fix_step qs (fix_step q s)))"
    by (rule Cons.IH)
  then show ?case
    using fix_step_log [of s q] by simp
qed

lemma fix_step_fixable:
  assumes "lookup (fst s) p = Some (File data)" and "fix_file data = Some new"
  shows "lookup (fst (fix_step p s)) p = Some (File new) \<and> p \<in> set (snd (fix_step p s))"
  using assms is_file_File [OF assms(1)]
  by (cases s) (simp add: fix_step_def lookup_write_bytes)

lemma fold_fix_fixable:
  assumes "p \<in> set qs" and "lookup (fst s) p = Some (File data)" and "fix_file data = Some new"
  shows "lookup (fst (fold fix_step qs s)) p = Some (File new) \<and>
         p \<in> set (snd (fold fix_step qs s))"
  using assms(1,2)
proof (induction qs arbitrary: s)
  case Nil
  then show ?case by simp
next
  case (Cons q qs)
  show ?case
  proof (cases "q = p")
    case True
    note step = fix_step_fixable [OF Cons.prems(2) assms(3)]
    have "lookup (fst (fold fix_step qs (fix_step p s))) p = Some (File new)"
      using fold_fix_unfixable [OF _ fix_file_fixed [OF assms(3)]] step by blast
    moreover have "p \<in> set (snd (fold fix_step qs (fix_step p s)))"
      using fold_fix_log [of "fix_step p s" qs] step by blast
    ultimately show ?thesis
      using True by simp
  next
    case False
    then have "p \<in> set qs" and "lookup (fst (fix_step q s)) p = Some (File data)"
      using Cons.prems by (simp_all add: fix_step_other)
    from Cons.IH [OF this] show ?thesis
      by simp
  qed
qed

lemma fix_shebangs_runs:
  "stat t (pfx @ [''bin'']) = Some (d, Dir) \<Longrightarrow>
     fix_shebangs pfx t = Inr (fold fix_step (children t d) (t, []))"
  by (simp add: fix_shebangs_def)

lemma is_dir_stat:
  assumes "is_dir t p"
  shows "\<exists>d. stat t p = Some (d, Dir)"
proof (cases "stat t p")
  case None
  then show ?thesis
    using assms by (simp add: is_dir_def)
next
  case (Some r)
  obtain d n where "r = (d, n)" by (cases r)
  then show ?thesis
    using assms Some by (cases n) (simp_all add: is_dir_def)
qed

lemma example_bin_tree_fixed:
  "fix_shebangs example_prefix (example_bin_tree data) =
     Inr (case fix_file data of
            None \<Rightarrow> (example_bin_tree data, [])
          | Some new \<Rightarrow> (example_bin_tree new, [[''prefix'', ''bin'', ''run'']]))"
proof -
  have bin: "lookup (example_bin_tree data) [''prefix'', ''bin''] = Some Dir"
    and run: "lookup (example_bin_tree data) [''prefix'', ''bin'', ''run''] = Some (File data)"
    by (simp_all add: lookup_def example_bin_tree_def)
  have "stat (example_bin_tree data) (example_prefix @ [''bin'']) = Some ([''prefix'', ''bin''], Dir)"
    using resolve_dir [OF bin] by (simp add: stat_def example_prefix_def)
  then have "fix_shebangs example_prefix (example_bin_tree data) =
      Inr (fold fix_step (children (example_bin_tree data) [''prefix'', ''bin''])
        (example_bin_tree data, []))"
    by (rule fix_shebangs_runs)
  moreover have "children (example_bin_tree data) [''prefix'', ''bin''] =
      [[''prefix'', ''bin'', ''run'']]"
    by (simp add: children_def example_bin_tree_def)
  moreover have "fix_step [''prefix'', ''bin'', ''run''] (example_bin_tree data, []) =
      (case fix_file data of
         None \<Rightarrow> (example_bin_tree data, [])
       | Some new \<Rightarrow> (example_bin_tree new, [[''prefix'', ''bin'', ''run'']]))"
    using is_file_File [OF run] run
    by (simp add: fix_step_def write_bytes_def example_bin_tree_def split: option.splits)
  ultimately show ?thesis
    by simp
qed

lemma readline_zero: "readline 0 ys = []"
  by (cases ys) simp_all

lemma readline_without_newline:
  "CHR 0x0A \<notin> set xs \<Longrightarrow>
     readline n (xs @ ys) = (if n \<le> length xs then take n xs else xs @ readline (n - length xs) ys)"
proof (induction xs arbitrary: n)
  case Nil
  then show ?case by (simp add: readline_zero)
next
  case (Cons x xs)
  then have "readline (n - 1) (xs @ ys) =
      (if n - 1 \<le> length xs then take (n - 1) xs else xs @ readline (n - 1 - length xs) ys)"
    by simp
  with Cons.prems show ?case
    by (cases n) (auto simp: readline_zero)
qed

lemma readline_long_script:
  "readline 1024 long_script = ''#!/bin/sh '' @ replicate 1014 (CHR ''x'')"
proof -
  have "CHR 0x0A \<notin> set (''#!/bin/sh '' @ replicate 1020 (CHR ''x''))"
    by simp
  then have "readline 1024 ((''#!/bin/sh '' @ replicate 1020 (CHR ''x'')) @ [CHR 0x0A] @ ''echo'') =
      (if 1024 \<le> length (''#!/bin/sh '' @ replicate 1020 (CHR ''x''))
       then take 1024 (''#!/bin/sh '' @ replicate 1020 (CHR ''x''))
       else (''#!/bin/sh '' @ replicate 1020 (CHR ''x'')) @
         readline (1024 - length (''#!/bin/sh '' @ replicate 1020 (CHR ''x''))) ([CHR 0x0A] @ ''echo''))"
    by (rule readline_without_newline)
  then have "readline 1024 ((''#!/bin/sh '' @ replicate 1020 (CHR ''x'')) @ [CHR 0x0A] @ ''echo'') =
      ''#!/bin/sh '' @ replicate 1014 (CHR ''x'')"
    by simp
  then show ?thesis
    by (simp add: long_script_def)
qed

lemma fix_file_long_script:
  "fix_file long_script = Some (shell_shebang @ replicate 6 (CHR ''x'') @ [CHR 0x0A] @ ''echo'')"
proof -
  have "\<not> is_binary (''#!/bin/sh '' @ replicate 1014 (CHR ''x''))"
    by (simp add: is_binary_def TEXT_CHARS_def)
  moreover have "re_match shell_shebang_re (''#!/bin/sh '' @ replicate 1014 (CHR ''x''))"
    by (simp add: shell_shebang_re_def cat_def lit_def opt_def plus_def space_def)
  moreover have "drop 1024 long_script = replicate 6 (CHR ''x'') @ [CHR 0x0A] @ ''echo''"
    by (simp add: long_script_def)
  ultimately show ?thesis
    by (simp add: fix_file_def readline_long_script)
qed

lemma after_first_line_long_script:
  "drop 1 (dropWhile (\<lambda>c. c \<noteq> CHR 0x0A) long_script) = ''echo''"
  by (simp add: long_script_def dropWhile_append3)

text \<open>
  Claim C2, as the code has it. The claim as stated fails: the stage tests the bytes
  that \<open>readline(1024)\<close> returns, which end at the first line feed, so a byte outside
  the text set after the first line does not stop the rewrite. What holds: a regular
  file whose first line (the bytes up to and including the first line feed, at most
  1024) contains a byte outside the text set has the same content after
  \<open>_fix_shebangs\<close>, and is not logged as patched.
\<close>

theorem fix_shebangs_skips_binary:
  assumes "is_dir t (pfx @ [''bin''])"
    and "lookup t p = Some (File data)"
    and "is_binary (readline 1024 data)"
  shows "\<exists>t' patched. fix_shebangs pfx t = Inr (t', patched) \<and>
           lookup t' p = Some (File data) \<and> p \<notin> set patched"
proof -
  obtain d where "stat t (pfx @ [''bin'']) = Some (d, Dir)"
    using is_dir_stat [OF assms(1)] by blast
  then have run: "fix_shebangs pfx t = Inr (fold fix_step (children t d) (t, []))"
    by (rule fix_shebangs_runs)
  have "fix_file data = None"
    using assms(3) by (rule fix_file_binary)
  then have "lookup (fst (fold fix_step (children t d) (t, []))) p = Some (File data) \<and>
      p \<notin> set (snd (fold fix_step (children t d) (t, [])))"
    using fold_fix_unfixable [of "(t, [])" p data "children t d"] assms(2) by simp
  then show ?thesis
    using run by (cases "fold fix_step (children t d) (t, [])") auto
qed

theorem fix_shebangs_skips_binary_witness:
  "\<exists>t' patched.
     fix_shebangs example_prefix (example_bin_tree (''#!/bin/sh'' @ [CHR 0x00, CHR 0x0A] @ ''echo'')) =
       Inr (t', patched) \<and>
     lookup t' [''prefix'', ''bin'', ''run''] =
       Some (File (''#!/bin/sh'' @ [CHR 0x00, CHR 0x0A] @ ''echo'')) \<and>
     [''prefix'', ''bin'', ''run''] \<notin> set patched"
proof -
  have "lookup (example_bin_tree (''#!/bin/sh'' @ [CHR 0x00, CHR 0x0A] @ ''echo''))
      [''prefix'', ''bin''] = Some Dir"
    by (simp add: lookup_def example_bin_tree_def)
  then have h1: "is_dir (example_bin_tree (''#!/bin/sh'' @ [CHR 0x00, CHR 0x0A] @ ''echo''))
      (example_prefix @ [''bin''])"
    by (simp add: is_dir_def stat_def resolve_dir example_prefix_def)
  have h2: "lookup (example_bin_tree (''#!/bin/sh'' @ [CHR 0x00, CHR 0x0A] @ ''echo''))
      [''prefix'', ''bin'', ''run''] = Some (File (''#!/bin/sh'' @ [CHR 0x00, CHR 0x0A] @ ''echo''))"
    by (simp add: lookup_def example_bin_tree_def)
  have h3: "is_binary (readline 1024 (''#!/bin/sh'' @ [CHR 0x00, CHR 0x0A] @ ''echo''))"
    by (simp add: is_binary_def TEXT_CHARS_def)
  show ?thesis
    by (rule fix_shebangs_skips_binary [OF h1 h2 h3])
qed

theorem fix_shebangs_skips_binary_counterexample:
  "is_binary (take 1024 (''#!/bin/sh'' @ [CHR 0x0A, CHR 0x00])) \<and>
   fix_shebangs example_prefix (example_bin_tree (''#!/bin/sh'' @ [CHR 0x0A, CHR 0x00])) =
     Inr (example_bin_tree (''#!/system/bin/sh'' @ [CHR 0x0A, CHR 0x00]),
          [[''prefix'', ''bin'', ''run'']]) \<and>
   ''#!/system/bin/sh'' @ [CHR 0x0A, CHR 0x00] \<noteq> ''#!/bin/sh'' @ [CHR 0x0A, CHR 0x00]"
proof -
  have "fix_file (''#!/bin/sh'' @ [CHR 0x0A, CHR 0x00]) =
      Some (''#!/system/bin/sh'' @ [CHR 0x0A, CHR 0x00])"
    by code_simp
  then have "fix_shebangs example_prefix (example_bin_tree (''#!/bin/sh'' @ [CHR 0x0A, CHR 0x00])) =
     Inr (example_bin_tree (''#!/system/bin/sh'' @ [CHR 0x0A, CHR 0x00]),
          [[''prefix'', ''bin'', ''run'']])"
    by (simp add: example_bin_tree_fixed)
  moreover have "is_binary (take 1024 (''#!/bin/sh'' @ [CHR 0x0A, CHR 0x00]))"
    by (simp add: is_binary_def TEXT_CHARS_def)
  ultimately show ?thesis
    by simp
qed

text \<open>
  Claim C4, as the code has it. The claim as stated fails for a first line longer than
  1024 bytes: the stage replaces the first 1024 bytes only, and the rest of the first
  line stays. What holds, for a regular file directly in the prefix's executable
  directory: the stage either leaves the file as it is, or writes one of the two target
  shebang lines followed by every byte after the bytes that \<open>readline(1024)\<close> returned,
  which are the file's first at most 1024 bytes; when the first line feed is among the
  first 1024 bytes, these are exactly the bytes after the first line. A file that starts
  with a target shebang line is left as it is.
\<close>

theorem fix_shebangs_rewrites_first_line:
  assumes "stat t (pfx @ [''bin'']) = Some (d, Dir)"
    and "lookup t p = Some (File data)"
    and "p \<noteq> []" and "butlast p = d"
  shows "\<exists>t' patched. fix_shebangs pfx t = Inr (t', patched) \<and>
           (case fix_file data of
              None \<Rightarrow> lookup t' p = Some (File data) \<and> p \<notin> set patched
            | Some new \<Rightarrow>
                lookup t' p = Some (File new) \<and> p \<in> set patched \<and>
                (new = shell_shebang @ drop (length (readline 1024 data)) data \<or>
                 new = python_shebang @ drop (length (readline 1024 data)) data) \<and>
                readline 1024 data = take (length (readline 1024 data)) data \<and>
                length (readline 1024 data) \<le> 1024 \<and>
                (length (takeWhile (\<lambda>c. c \<noteq> CHR 0x0A) data) < 1024 \<longrightarrow>
                   drop (length (readline 1024 data)) data =
                     drop 1 (dropWhile (\<lambda>c. c \<noteq> CHR 0x0A) data))) \<and>
           (prefix shell_shebang data \<or> prefix python_shebang data \<longrightarrow>
              lookup t' p = Some (File data) \<and> p \<notin> set patched)"
proof -
  let ?s = "fold fix_step (children t d) (t, [])"
  have run: "fix_shebangs pfx t = Inr (fst ?s, snd ?s)"
    using fix_shebangs_runs [OF assms(1)] by simp
  have "lexists t p"
    using assms(2) by (simp add: lexists_def)
  then have "p \<in> set (map fst t)"
    by (simp only: lexists_paths)
  then have child: "p \<in> set (children t d)"
    using assms(3,4) by (simp add: children_def)
  have none: "lookup (fst ?s) p = Some (File data) \<and> p \<notin> set (snd ?s)"
    if "fix_file data = None"
    using fold_fix_unfixable [of "(t, [])" p data "children t d"] assms(2) that by simp
  have main: "case fix_file data of
              None \<Rightarrow> lookup (fst ?s) p = Some (File data) \<and> p \<notin> set (snd ?s)
            | Some new \<Rightarrow>
                lookup (fst ?s) p = Some (File new) \<and> p \<in> set (snd ?s) \<and>
                (new = shell_shebang @ drop (length (readline 1024 data)) data \<or>
                 new = python_shebang @ drop (length (readline 1024 data)) data) \<and>
                readline 1024 data = take (length (readline 1024 data)) data \<and>
                length (readline 1024 data) \<le> 1024 \<and>
                (length (takeWhile (\<lambda>c. c \<noteq> CHR 0x0A) data) < 1024 \<longrightarrow>
                   drop (length (readline 1024 data)) data =
                     drop 1 (dropWhile (\<lambda>c. c \<noteq> CHR 0x0A) data))"
  proof (cases "fix_file data")
    case None
    then show ?thesis
      using none by simp
  next
    case (Some new)
    have "lookup (fst ?s) p = Some (File new) \<and> p \<in> set (snd ?s)"
      using fold_fix_fixable [OF child _ Some, of "(t, [])"] assms(2) by simp
    moreover note fix_file_Some [OF Some]
    moreover have "readline 1024 data = take (length (readline 1024 data)) data"
      by (rule readline_prefix)
    moreover have "length (readline 1024 data) \<le> 1024"
      by (rule readline_length)
    moreover have "length (takeWhile (\<lambda>c. c \<noteq> CHR 0x0A) data) < 1024 \<longrightarrow>
        drop (length (readline 1024 data)) data =
          drop 1 (dropWhile (\<lambda>c. c \<noteq> CHR 0x0A) data)"
      using readline_rest [of data 1024] by blast
    ultimately show ?thesis
      using Some by simp
  qed
  have noop: "lookup (fst ?s) p = Some (File data) \<and> p \<notin> set (snd ?s)"
    if "prefix shell_shebang data \<or> prefix python_shebang data"
  proof -
    have "prefix ''#!/system/bin/'' data"
      using that by (auto simp: prefix_def shell_shebang_def python_shebang_def)
    then have "fix_file data = None"
      by (rule fix_file_target)
    then show ?thesis
      by (rule none)
  qed
  show ?thesis
    using run main noop by blast
qed

theorem fix_shebangs_rewrites_first_line_witness:
  "\<exists>t' patched.
     fix_shebangs example_prefix
       (example_bin_tree (''#!/usr/bin/env python3'' @ [CHR 0x0A] @ ''print(1)'')) =
       Inr (t', patched) \<and>
     lookup t' [''prefix'', ''bin'', ''run''] =
       Some (File (''#!/system/bin/python3'' @ [CHR 0x0A] @ ''print(1)'')) \<and>
     [''prefix'', ''bin'', ''run''] \<in> set patched"
proof -
  let ?data = "''#!/usr/bin/env python3'' @ [CHR 0x0A] @ ''print(1)''"
  have "lookup (example_bin_tree ?data) [''prefix'', ''bin''] = Some Dir"
    by (simp add: lookup_def example_bin_tree_def)
  then have h1: "stat (example_bin_tree ?data) (example_prefix @ [''bin'']) =
      Some ([''prefix'', ''bin''], Dir)"
    by (simp add: stat_def resolve_dir example_prefix_def)
  have h2: "lookup (example_bin_tree ?data) [''prefix'', ''bin'', ''run''] = Some (File ?data)"
    by (simp add: lookup_def example_bin_tree_def)
  have h3: "[''prefix'', ''bin'', ''run''] \<noteq> []"
    and h4: "butlast [''prefix'', ''bin'', ''run''] = [''prefix'', ''bin'']"
    by simp_all
  have f: "fix_file ?data = Some (''#!/system/bin/python3'' @ [CHR 0x0A] @ ''print(1)'')"
    by code_simp
  from fix_shebangs_rewrites_first_line [OF h1 h2 h3 h4] show ?thesis
    unfolding f by auto
qed

theorem fix_shebangs_rewrites_first_line_counterexample:
  "fix_shebangs example_prefix (example_bin_tree long_script) =
     Inr (example_bin_tree (shell_shebang @ replicate 6 (CHR ''x'') @ [CHR 0x0A] @ ''echo''),
          [[''prefix'', ''bin'', ''run'']]) \<and>
   drop 1 (dropWhile (\<lambda>c. c \<noteq> CHR 0x0A) long_script) = ''echo'' \<and>
   shell_shebang @ replicate 6 (CHR ''x'') @ [CHR 0x0A] @ ''echo'' \<noteq> shell_shebang @ ''echo'' \<and>
   shell_shebang @ replicate 6 (CHR ''x'') @ [CHR 0x0A] @ ''echo'' \<noteq> python_shebang @ ''echo''"
proof -
  have "fix_shebangs example_prefix (example_bin_tree long_script) =
     Inr (example_bin_tree (shell_shebang @ replicate 6 (CHR ''x'') @ [CHR 0x0A] @ ''echo''),
          [[''prefix'', ''bin'', ''run'']])"
    by (simp add: example_bin_tree_fixed fix_file_long_script)
  moreover have "shell_shebang @ replicate 6 (CHR ''x'') @ [CHR 0x0A] @ ''echo'' \<noteq>
      shell_shebang @ ''echo''"
    "shell_shebang @ replicate 6 (CHR ''x'') @ [CHR 0x0A] @ ''echo'' \<noteq> python_shebang @ ''echo''"
    by (simp_all add: shell_shebang_def python_shebang_def)
  ultimately show ?thesis
    using after_first_line_long_script by simp
qed

section \<open>Properties of patch application\<close>

lemma contains_iff:
  "contains needle hay \<longleftrightarrow> (\<exists>pre post. hay = pre @ needle @ post)"
proof -
  have "contains needle hay \<longleftrightarrow> sublist needle hay"
  proof (induction hay)
    case Nil
    then show ?case by simp
  next
    case (Cons h hs)
    have "take (length needle) (h # hs) = needle \<longleftrightarrow> prefix needle (h # hs)"
      by (metis append_eq_conv_conj prefix_def)
    then show ?case
      using Cons.IH by (simp only: contains.simps sublist_Cons_right)
  qed
  then show ?thesis
    by (simp add: sublist_def)
qed

lemma apply_patches_step:
  assumes "tool (src st) (patch_command p) = ((rc, out, err), s')"
  shows "CPythonBuilder_apply_patches tool ((p, True) # rest) st =
     (if rc = 0 \<or> contains reversed_marker out
      then CPythonBuilder_apply_patches tool rest
             \<lparr>src = s', stdout_written = stdout_written st @ out,
              command_log = command_log st @ [patch_command p]\<rparr>
      else (Inl (CalledProcessError rc (patch_command p) out err),
            \<lparr>src = s', stdout_written = stdout_written st @ out,
             command_log = command_log st @ [patch_command p]\<rparr>))"
  using assms by (cases st) (simp add: run_unchecked_def Let_def)

lemma apply_patches_log:
  "CPythonBuilder_apply_patches tool ps st = (res, st') \<Longrightarrow>
     \<exists>n \<le> length (filter snd ps).
        command_log st' = command_log st @ map (patch_command \<circ> fst) (take n (filter snd ps)) \<and>
        (case res of
           Inr _ \<Rightarrow> n = length (filter snd ps)
         | Inl e \<Rightarrow> 0 < n \<and>
             (\<exists>rc out err. rc \<noteq> 0 \<and> \<not> contains reversed_marker out \<and>
                e = CalledProcessError rc (patch_command (fst (filter snd ps ! (n - 1)))) out err))"
proof (induction ps arbitrary: st)
  case Nil
  then show ?case by auto
next
  case (Cons a ps)
  obtain p f where a: "a = (p, f)" by (cases a)
  show ?case
  proof (cases f)
    case False
    have eq: "filter snd (a # ps) = filter snd ps"
      using a False by simp
    have "CPythonBuilder_apply_patches tool ps st = (res, st')"
      using Cons.prems a False by simp
    from Cons.IH [OF this] show ?thesis
      unfolding eq .
  next
    case True
    obtain rc out err s' where run: "tool (src st) (patch_command p) = ((rc, out, err), s')"
      by (metis prod.exhaust)
    let ?st2 = "\<lparr>src = s', stdout_written = stdout_written st @ out,
              command_log = command_log st @ [patch_command p]\<rparr>"
    have log2: "command_log ?st2 = command_log st @ [patch_command p]"
      by simp
    note step = apply_patches_step [of tool st p rc out err s' ps, OF run]
    show ?thesis
    proof (cases "rc = 0 \<or> contains reversed_marker out")
      case ok: True
      then have "CPythonBuilder_apply_patches tool ps ?st2 = (res, st')"
        using step Cons.prems a True by simp
      from Cons.IH [OF this] obtain n where n: "n \<le> length (filter snd ps)"
        "command_log st' = command_log ?st2 @ map (patch_command \<circ> fst) (take n (filter snd ps))"
        "case res of
           Inr _ \<Rightarrow> n = length (filter snd ps)
         | Inl e \<Rightarrow> 0 < n \<and>
             (\<exists>rc out err. rc \<noteq> 0 \<and> \<not> contains reversed_marker out \<and>
                e = CalledProcessError rc (patch_command (fst (filter snd ps ! (n - 1)))) out err)"
        by blast
      have "Suc n \<le> length (filter snd (a # ps))"
        using n(1) a True by simp
      moreover have "command_log st' =
          command_log st @ map (patch_command \<circ> fst) (take (Suc n) (filter snd (a # ps)))"
        using n(2) log2 a True by simp
      moreover have "case res of
           Inr _ \<Rightarrow> Suc n = length (filter snd (a # ps))
         | Inl e \<Rightarrow> 0 < Suc n \<and>
             (\<exists>rc out err. rc \<noteq> 0 \<and> \<not> contains reversed_marker out \<and>
                e = CalledProcessError rc
                  (patch_command (fst (filter snd (a # ps) ! (Suc n - 1)))) out err)"
        using n(3) a True by (cases res) (auto simp: nth_Cons split: nat.splits)
      ultimately show ?thesis by blast
    next
      case bad: False
      then have res: "res = Inl (CalledProcessError rc (patch_command p) out err)"
        and st': "st' = ?st2"
        using step Cons.prems a True by simp_all
      have "Suc 0 \<le> length (filter snd (a # ps))"
        using a True by simp
      moreover have "command_log st' =
          command_log st @ map (patch_command \<circ> fst) (take (Suc 0) (filter snd (a # ps)))"
        using log2 st' a True by simp
      moreover have "case res of
           Inr _ \<Rightarrow> Suc 0 = length (filter snd (a # ps))
         | Inl e \<Rightarrow> 0 < Suc 0 \<and>
             (\<exists>rc out err. rc \<noteq> 0 \<and> \<not> contains reversed_marker out \<and>
                e = CalledProcessError rc
                  (patch_command (fst (filter snd (a # ps) ! (Suc 0 - 1)))) out err)"
        unfolding res using bad a True by simp
      ultimately show ?thesis by blast
    qed
  qed
qed

lemma marker_iff:
  "contains reversed_marker out \<longleftrightarrow>
     (\<exists>pre post. out = pre @ ''Reversed (or previously applied) patch detected!'' @ post)"
  unfolding contains_iff reversed_marker_def ..

text \<open>
  Claim C7. For a patch file that \<open>_apply_patches\<close> reaches, with the exit code, the two
  captured outputs and the tree that the patch tool leaves: when the tool exits 0, or
  exits with any other code and its captured standard output contains \<open>Reversed (or
  previously applied) patch detected!\<close> somewhere, the function goes on with the next
  patch, from the tree the tool left, with the output written to standard output and
  the command logged; for every other exit the function raises \<open>CalledProcessError\<close>
  with the tool's exit code, the command line and both captured outputs, and leaves
  that same state. Over a whole run, the commands logged are those of the first \<open>n\<close>
  patch files in order: all of them when the run succeeds, and up to the failing one,
  whose command the error carries, when it raises, so no patch after the failing one is
  applied.
\<close>

theorem apply_patches_success_or_abort:
  "(tool (src st) (patch_command p) = ((rc, out, err), s') \<and>
      (rc = 0 \<or>
       (\<exists>pre post. out = pre @ ''Reversed (or previously applied) patch detected!'' @ post)) \<longrightarrow>
        CPythonBuilder_apply_patches tool ((p, True) # rest) st =
          CPythonBuilder_apply_patches tool rest
            \<lparr>src = s', stdout_written = stdout_written st @ out,
             command_log = command_log st @
               [[''patch'', ''-Np1'', ''-sr'', ''-'', ''-i'',
                 path_str (truediv_path (Path ''../../'') p)]]\<rparr>) \<and>
   (tool (src st) (patch_command p) = ((rc, out, err), s') \<and>
      rc \<noteq> 0 \<and>
      \<not> (\<exists>pre post. out = pre @ ''Reversed (or previously applied) patch detected!'' @ post) \<longrightarrow>
        CPythonBuilder_apply_patches tool ((p, True) # rest) st =
          (Inl (CalledProcessError rc
                  [''patch'', ''-Np1'', ''-sr'', ''-'', ''-i'',
                   path_str (truediv_path (Path ''../../'') p)] out err),
           \<lparr>src = s', stdout_written = stdout_written st @ out,
            command_log = command_log st @
              [[''patch'', ''-Np1'', ''-sr'', ''-'', ''-i'',
                path_str (truediv_path (Path ''../../'') p)]]\<rparr>)) \<and>
   (CPythonBuilder_apply_patches tool ps st0 = (res, st') \<longrightarrow>
      (\<exists>n \<le> length (filter snd ps).
        command_log st' = command_log st0 @ map (patch_command \<circ> fst) (take n (filter snd ps)) \<and>
        (case res of
           Inr _ \<Rightarrow> n = length (filter snd ps)
         | Inl e \<Rightarrow> 0 < n \<and>
             (\<exists>rc out err. rc \<noteq> 0 \<and>
                \<not> (\<exists>pre post. out = pre @ ''Reversed (or previously applied) patch detected!'' @ post) \<and>
                e = CalledProcessError rc (patch_command (fst (filter snd ps ! (n - 1)))) out err))))"
proof (intro conjI impI)
  assume "tool (src st) (patch_command p) = ((rc, out, err), s') \<and>
      (rc = 0 \<or>
       (\<exists>pre post. out = pre @ ''Reversed (or previously applied) patch detected!'' @ post))"
  then have "tool (src st) (patch_command p) = ((rc, out, err), s')"
    and "rc = 0 \<or> contains reversed_marker out"
    unfolding marker_iff by simp_all
  then show "CPythonBuilder_apply_patches tool ((p, True) # rest) st =
          CPythonBuilder_apply_patches tool rest
            \<lparr>src = s', stdout_written = stdout_written st @ out,
             command_log = command_log st @
               [[''patch'', ''-Np1'', ''-sr'', ''-'', ''-i'',
                 path_str (truediv_path (Path ''../../'') p)]]\<rparr>"
    using apply_patches_step [of tool st p rc out err s' rest]
    by (simp add: patch_command_def)
next
  assume "tool (src st) (patch_command p) = ((rc, out, err), s') \<and>
      rc \<noteq> 0 \<and>
      \<not> (\<exists>pre post. out = pre @ ''Reversed (or previously applied) patch detected!'' @ post)"
  then have "tool (src st) (patch_command p) = ((rc, out, err), s')"
    and "\<not> (rc = 0 \<or> contains reversed_marker out)"
    unfolding marker_iff by simp_all
  then show "CPythonBuilder_apply_patches tool ((p, True) # rest) st =
          (Inl (CalledProcessError rc
                  [''patch'', ''-Np1'', ''-sr'', ''-'', ''-i'',
                   path_str (truediv_path (Path ''../../'') p)] out err),
           \<lparr>src = s', stdout_written = stdout_written st @ out,
            command_log = command_log st @
              [[''patch'', ''-Np1'', ''-sr'', ''-'', ''-i'',
                path_str (truediv_path (Path ''../../'') p)]]\<rparr>)"
    using apply_patches_step [of tool st p rc out err s' rest]
    by (simp add: patch_command_def)
next
  assume "CPythonBuilder_apply_patches tool ps st0 = (res, st')"
  then show "\<exists>n \<le> length (filter snd ps).
        command_log st' = command_log st0 @ map (patch_command \<circ> fst) (take n (filter snd ps)) \<and>
        (case res of
           Inr _ \<Rightarrow> n = length (filter snd ps)
         | Inl e \<Rightarrow> 0 < n \<and>
             (\<exists>rc out err. rc \<noteq> 0 \<and>
                \<not> (\<exists>pre post. out = pre @ ''Reversed (or previously applied) patch detected!'' @ post) \<and>
                e = CalledProcessError rc (patch_command (fst (filter snd ps ! (n - 1)))) out err))"
    unfolding marker_iff [symmetric] by (rule apply_patches_log)
qed

theorem apply_patches_success_or_abort_witness:
  "CPythonBuilder_apply_patches example_patch_tool
       [(example_patch ''a.patch'', True), (example_patch ''b.patch'', True),
        (example_patch ''c.patch'', True), (example_patch ''d.patch'', True)]
       \<lparr>src = 0, stdout_written = [], command_log = []\<rparr> =
     (Inl (CalledProcessError 1
             [''patch'', ''-Np1'', ''-sr'', ''-'', ''-i'', ''../../patches/c.patch'']
             ''1 out of 1 hunk FAILED'' []),
      \<lparr>src = 1,
       stdout_written =
         ''patch: Reversed (or previously applied) patch detected!  Skipping patch.'' @
         ''1 out of 1 hunk FAILED'',
       command_log = [[''patch'', ''-Np1'', ''-sr'', ''-'', ''-i'', ''../../patches/a.patch''],
                      [''patch'', ''-Np1'', ''-sr'', ''-'', ''-i'', ''../../patches/b.patch''],
                      [''patch'', ''-Np1'', ''-sr'', ''-'', ''-i'', ''../../patches/c.patch'']]\<rparr>)"
proof -
  let ?a = "[''patch'', ''-Np1'', ''-sr'', ''-'', ''-i'', ''../../patches/a.patch'']"
  let ?b = "[''patch'', ''-Np1'', ''-sr'', ''-'', ''-i'', ''../../patches/b.patch'']"
  let ?c = "[''patch'', ''-Np1'', ''-sr'', ''-'', ''-i'', ''../../patches/c.patch'']"
  let ?bout = "''patch: Reversed (or previously applied) patch detected!  Skipping patch.''"
  let ?cout = "''1 out of 1 hunk FAILED''"
  have ca: "patch_command (example_patch ''a.patch'') = ?a"
    and cb: "patch_command (example_patch ''b.patch'') = ?b"
    and cc: "patch_command (example_patch ''c.patch'') = ?c"
    by (simp_all add: patch_command_def example_patch_def truediv_path_def Path_def path_str_def)
  have pa: "path_str (truediv_path (Path ''../../'') (example_patch ''a.patch'')) =
      ''../../patches/a.patch''"
    and pb: "path_str (truediv_path (Path ''../../'') (example_patch ''b.patch'')) =
      ''../../patches/b.patch''"
    and pc: "path_str (truediv_path (Path ''../../'') (example_patch ''c.patch'')) =
      ''../../patches/c.patch''"
    by (simp_all add: example_patch_def truediv_path_def Path_def path_str_def)
  let ?s0 = "\<lparr>src = 0::nat, stdout_written = [], command_log = []\<rparr>"
  let ?s1 = "\<lparr>src = 1::nat, stdout_written = [], command_log = [?a]\<rparr>"
  let ?s2 = "\<lparr>src = 1::nat, stdout_written = ?bout, command_log = [?a, ?b]\<rparr>"
  have ta: "example_patch_tool (src ?s0) (patch_command (example_patch ''a.patch'')) =
      ((0, [], []), 1)"
    unfolding ca by (simp add: example_patch_tool_def)
  have tb: "example_patch_tool (src ?s1) (patch_command (example_patch ''b.patch'')) =
      ((1, ?bout, []), 1)"
    unfolding cb by (simp add: example_patch_tool_def)
  have tc: "example_patch_tool (src ?s2) (patch_command (example_patch ''c.patch'')) =
      ((1, ?cout, []), 1)"
    unfolding cc by (simp add: example_patch_tool_def)
  have "?bout = ''patch: '' @ ''Reversed (or previously applied) patch detected!'' @
      ''  Skipping patch.''"
    by simp
  then have "\<exists>post. ?bout = ''patch: '' @ ''Reversed (or previously applied) patch detected!'' @ post"
    by (rule exI [of _ "''  Skipping patch.''"])
  then have mb: "\<exists>pre post. ?bout = pre @ ''Reversed (or previously applied) patch detected!'' @ post"
    by (rule exI [of _ "''patch: ''"])
  have "\<not> contains reversed_marker ?cout"
    by (simp add: reversed_marker_def)
  then have mc: "\<not> (\<exists>pre post. ?cout = pre @ ''Reversed (or previously applied) patch detected!'' @ post)"
    unfolding marker_iff .
  have h1: "example_patch_tool (src ?s0) (patch_command (example_patch ''a.patch'')) =
      ((0, [], []), 1) \<and>
      ((0::int) = 0 \<or>
       (\<exists>pre post. [] = pre @ ''Reversed (or previously applied) patch detected!'' @ post))"
    using ta by simp
  have h2: "example_patch_tool (src ?s1) (patch_command (example_patch ''b.patch'')) =
      ((1, ?bout, []), 1) \<and>
      ((1::int) = 0 \<or>
       (\<exists>pre post. ?bout = pre @ ''Reversed (or previously applied) patch detected!'' @ post))"
    using tb mb by (intro conjI disjI2)
  have h3: "example_patch_tool (src ?s2) (patch_command (example_patch ''c.patch'')) =
      ((1, ?cout, []), 1) \<and> (1::int) \<noteq> 0 \<and>
      \<not> (\<exists>pre post. ?cout = pre @ ''Reversed (or previously applied) patch detected!'' @ post)"
    using tc mc by (intro conjI) simp_all
  note t = apply_patches_success_or_abort
  note e1 = t [where tool = example_patch_tool and p = "example_patch ''a.patch''"
      and st = ?s0 and rc = 0 and out = "[]" and err = "[]" and s' = 1
      and rest = "[(example_patch ''b.patch'', True), (example_patch ''c.patch'', True),
        (example_patch ''d.patch'', True)]",
      THEN conjunct1, THEN mp, OF h1]
  note e2 = t [where tool = example_patch_tool and p = "example_patch ''b.patch''"
      and st = ?s1 and rc = 1 and out = ?bout and err = "[]" and s' = 1
      and rest = "[(example_patch ''c.patch'', True), (example_patch ''d.patch'', True)]",
      THEN conjunct1, THEN mp, OF h2]
  note e3 = t [where tool = example_patch_tool and p = "example_patch ''c.patch''"
      and st = ?s2 and rc = 1 and out = ?cout and err = "[]" and s' = 1
      and rest = "[(example_patch ''d.patch'', True)]",
      THEN conjunct2, THEN conjunct1, THEN mp, OF h3]
  have s1: "\<lparr>src = 1::nat, stdout_written = stdout_written ?s0 @ [],
      command_log = command_log ?s0 @
        [[''patch'', ''-Np1'', ''-sr'', ''-'', ''-i'',
          path_str (truediv_path (Path ''../../'') (example_patch ''a.patch''))]]\<rparr> = ?s1"
    unfolding pa by simp
  have s2: "\<lparr>src = 1::nat, stdout_written = stdout_written ?s1 @ ?bout,
      command_log = command_log ?s1 @
        [[''patch'', ''-Np1'', ''-sr'', ''-'', ''-i'',
          path_str (truediv_path (Path ''../../'') (example_patch ''b.patch''))]]\<rparr> = ?s2"
    unfolding pb by simp
  show ?thesis
    using e1 e2 e3 unfolding s1 s2 pc
    by (simp del: CPythonBuilder_apply_patches.simps)
qed

section \<open>Properties of the build environment\<close>

lemma truediv_name [simp]:
  "truediv p ''bin'' = PyPath (root p) (parts p @ [''bin''])"
  "truediv p ''lib'' = PyPath (root p) (parts p @ [''lib''])"
  by (simp_all add: truediv_def truediv_path_def Path_def)

lemma split_on_append_sep:
  "c \<notin> set a \<Longrightarrow> split_on c (a @ c # b) = a # split_on c b"
  by (induction a) auto

lemma create_env_value:
  "fst (create_env proc config toolchain) k =
     (let base = (case configure_env config k of Some v \<Rightarrow> Some v | None \<Rightarrow> os_environ proc k) in
      if k = ''LIBRARY_PATH'' then
        Some (case base of None \<Rightarrow> path_str (truediv toolchain ''lib'')
              | Some old \<Rightarrow> path_str (truediv toolchain ''lib'') @ '':'' @ old)
      else if k = ''PATH'' then
        Some (case base of None \<Rightarrow> path_str (truediv toolchain ''bin'')
              | Some old \<Rightarrow> path_str (truediv toolchain ''bin'') @ '':'' @ old)
      else base)"
  by (simp add: create_env_def update_env_path_def dict_update_def pathsep_def Let_def
      split: option.splits)

lemma create_env_entries:
  assumes "fst (create_env proc config toolchain) k = Some (d @ '':'' @ old)"
    and "CHR '':'' \<notin> set d"
  shows "path_entries (the (fst (create_env proc config toolchain) k)) = d # path_entries old"
  using assms by (simp add: path_entries_def split_on_append_sep)

text \<open>
  Claim C9. The environment that \<open>_create_env\<close> returns is the process environment
  overlaid with the configured overrides (an override wins over the process's value), in
  which \<open>PATH\<close> is the toolchain's \<open>bin\<close> directory and \<open>LIBRARY_PATH\<close> its \<open>lib\<close>
  directory, each followed by \<open>:\<close> and the variable's previous value when the overlay had
  one, and standing alone when it had none. Every other variable has the overlay's value.
  Read as a \<open>:\<close>-separated list, the new value is the toolchain directory followed by the
  previous entries in their order (for a directory name without \<open>:\<close>). The process
  environment itself is returned as it was.
\<close>

theorem create_env_overlay_prepend:
  "fst (create_env proc config toolchain) ''PATH'' =
     Some (case (case configure_env config ''PATH'' of Some v \<Rightarrow> Some v
                 | None \<Rightarrow> os_environ proc ''PATH'') of
             None \<Rightarrow> path_str (truediv toolchain ''bin'')
           | Some old \<Rightarrow> path_str (truediv toolchain ''bin'') @ '':'' @ old) \<and>
   fst (create_env proc config toolchain) ''LIBRARY_PATH'' =
     Some (case (case configure_env config ''LIBRARY_PATH'' of Some v \<Rightarrow> Some v
                 | None \<Rightarrow> os_environ proc ''LIBRARY_PATH'') of
             None \<Rightarrow> path_str (truediv toolchain ''lib'')
           | Some old \<Rightarrow> path_str (truediv toolchain ''lib'') @ '':'' @ old) \<and>
   (\<forall>k. k \<noteq> ''PATH'' \<and> k \<noteq> ''LIBRARY_PATH'' \<longrightarrow>
      fst (create_env proc config toolchain) k =
        (case configure_env config k of Some v \<Rightarrow> Some v | None \<Rightarrow> os_environ proc k)) \<and>
   (\<forall>old. (case configure_env config ''PATH'' of Some v \<Rightarrow> Some v
            | None \<Rightarrow> os_environ proc ''PATH'') = Some old \<and>
          CHR '':'' \<notin> set (path_str (truediv toolchain ''bin'')) \<longrightarrow>
      path_entries (the (fst (create_env proc config toolchain) ''PATH'')) =
        path_str (truediv toolchain ''bin'') # path_entries old) \<and>
   (\<forall>old. (case configure_env config ''LIBRARY_PATH'' of Some v \<Rightarrow> Some v
            | None \<Rightarrow> os_environ proc ''LIBRARY_PATH'') = Some old \<and>
          CHR '':'' \<notin> set (path_str (truediv toolchain ''lib'')) \<longrightarrow>
      path_entries (the (fst (create_env proc config toolchain) ''LIBRARY_PATH'')) =
        path_str (truediv toolchain ''lib'') # path_entries old) \<and>
   snd (create_env proc config toolchain) = proc"
proof (intro conjI allI impI)
  show "fst (create_env proc config toolchain) ''PATH'' =
     Some (case (case configure_env config ''PATH'' of Some v \<Rightarrow> Some v
                 | None \<Rightarrow> os_environ proc ''PATH'') of
             None \<Rightarrow> path_str (truediv toolchain ''bin'')
           | Some old \<Rightarrow> path_str (truediv toolchain ''bin'') @ '':'' @ old)"
    by (simp add: create_env_value)
next
  show "fst (create_env proc config toolchain) ''LIBRARY_PATH'' =
     Some (case (case configure_env config ''LIBRARY_PATH'' of Some v \<Rightarrow> Some v
                 | None \<Rightarrow> os_environ proc ''LIBRARY_PATH'') of
             None \<Rightarrow> path_str (truediv toolchain ''lib'')
           | Some old \<Rightarrow> path_str (truediv toolchain ''lib'') @ '':'' @ old)"
    by (simp add: create_env_value)
next
  fix k :: string
  assume "k \<noteq> ''PATH'' \<and> k \<noteq> ''LIBRARY_PATH''"
  then show "fst (create_env proc config toolchain) k =
        (case configure_env config k of Some v \<Rightarrow> Some v | None \<Rightarrow> os_environ proc k)"
    by (simp add: create_env_value)
next
  fix old
  assume a: "(case configure_env config ''PATH'' of Some v \<Rightarrow> Some v
            | None \<Rightarrow> os_environ proc ''PATH'') = Some old \<and>
          CHR '':'' \<notin> set (path_str (truediv toolchain ''bin''))"
  then have "fst (create_env proc config toolchain) ''PATH'' =
      Some (path_str (truediv toolchain ''bin'') @ '':'' @ old)"
    by (simp add: create_env_value)
  with a show "path_entries (the (fst (create_env proc config toolchain) ''PATH'')) =
        path_str (truediv toolchain ''bin'') # path_entries old"
    by (intro create_env_entries) simp_all
next
  fix old
  assume a: "(case configure_env config ''LIBRARY_PATH'' of Some v \<Rightarrow> Some v
            | None \<Rightarrow> os_environ proc ''LIBRARY_PATH'') = Some old \<and>
          CHR '':'' \<notin> set (path_str (truediv toolchain ''lib''))"
  then have "fst (create_env proc config toolchain) ''LIBRARY_PATH'' =
      Some (path_str (truediv toolchain ''lib'') @ '':'' @ old)"
    by (simp add: create_env_value)
  with a show "path_entries (the (fst (create_env proc config toolchain) ''LIBRARY_PATH'')) =
        path_str (truediv toolchain ''lib'') # path_entries old"
    by (intro create_env_entries) simp_all
next
  show "snd (create_env proc config toolchain) = proc"
    by (simp add: create_env_def Let_def)
qed

theorem create_env_overlay_prepend_witness:
  "fst (create_env \<lparr>os_environ = [''PATH'' \<mapsto> ''/usr/bin:/bin'', ''CC'' \<mapsto> ''gcc'']\<rparr>
         \<lparr>apply_patches = True, build_hosts = [], configure_args = [],
          configure_env = [''CC'' \<mapsto> ''clang''], version = ''3.13.0''\<rparr>
         (PyPath ''/'' [''opt'', ''ndk''])) ''PATH'' = Some ''/opt/ndk/bin:/usr/bin:/bin'' \<and>
   fst (create_env \<lparr>os_environ = [''PATH'' \<mapsto> ''/usr/bin:/bin'', ''CC'' \<mapsto> ''gcc'']\<rparr>
         \<lparr>apply_patches = True, build_hosts = [], configure_args = [],
          configure_env = [''CC'' \<mapsto> ''clang''], version = ''3.13.0''\<rparr>
         (PyPath ''/'' [''opt'', ''ndk''])) ''LIBRARY_PATH'' = Some ''/opt/ndk/lib'' \<and>
   fst (create_env \<lparr>os_environ = [''PATH'' \<mapsto> ''/usr/bin:/bin'', ''CC'' \<mapsto> ''gcc'']\<rparr>
         \<lparr>apply_patches = True, build_hosts = [], configure_args = [],
          configure_env = [''CC'' \<mapsto> ''clang''], version = ''3.13.0''\<rparr>
         (PyPath ''/'' [''opt'', ''ndk''])) ''CC'' = Some ''clang'' \<and>
   path_entries (the (fst (create_env
         \<lparr>os_environ = [''PATH'' \<mapsto> ''/usr/bin:/bin'', ''CC'' \<mapsto> ''gcc'']\<rparr>
         \<lparr>apply_patches = True, build_hosts = [], configure_args = [],
          configure_env = [''CC'' \<mapsto> ''clang''], version = ''3.13.0''\<rparr>
         (PyPath ''/'' [''opt'', ''ndk''])) ''PATH'')) = [''/opt/ndk/bin'', ''/usr/bin'', ''/bin'']"
proof -
  note t = create_env_overlay_prepend [of
      "\<lparr>os_environ = [''PATH'' \<mapsto> ''/usr/bin:/bin'', ''CC'' \<mapsto> ''gcc'']\<rparr>"
      "\<lparr>apply_patches = True, build_hosts = [], configure_args = [],
          configure_env = [''CC'' \<mapsto> ''clang''], version = ''3.13.0''\<rparr>"
      "PyPath ''/'' [''opt'', ''ndk'']"]
  have e: "path_entries ''/usr/bin:/bin'' = [''/usr/bin'', ''/bin'']"
    by (simp add: path_entries_def)
  have b: "path_str (truediv (PyPath ''/'' [''opt'', ''ndk'']) ''bin'') = ''/opt/ndk/bin''"
    and l: "path_str (truediv (PyPath ''/'' [''opt'', ''ndk'']) ''lib'') = ''/opt/ndk/lib''"
    by (simp_all add: path_str_def)
  note t4 = t [THEN conjunct2, THEN conjunct2, THEN conjunct2, THEN conjunct1, THEN spec,
      of "''/usr/bin:/bin''"]
  from t t4 show ?thesis
    unfolding b l by (simp add: e)
qed

section \<open>Properties of the toolchain lookup\<close>










section \<open>Properties of the metadata file\<close>

lemma universal_newlines_id:
  "13 \<notin> set s \<Longrightarrow> universal_newlines s = s"
  by (induction s rule: universal_newlines.induct) auto

lemma file_lines_line:
  "10 \<notin> set l \<Longrightarrow> file_lines (l @ 10 # cs) = (l @ [10]) # file_lines cs"
  by (induction l) auto

lemma file_lines_items:
  "\<forall>(k, v) \<in> set props. 10 \<notin> set (k @ v) \<Longrightarrow>
     file_lines (format_module_prop props) = map (\<lambda>(k, v). k @ [61] @ v @ [10]) props"
proof (induction props)
  case Nil
  then show ?case by (simp add: format_module_prop_def)
next
  case (Cons a props)
  obtain k v where a: "a = (k, v)" by (cases a)
  have "10 \<notin> set (k @ 61 # v)"
    using Cons.prems a by simp
  then have "file_lines ((k @ 61 # v) @ 10 # format_module_prop props) =
      ((k @ 61 # v) @ [10]) # file_lines (format_module_prop props)"
    by (rule file_lines_line)
  moreover have "format_module_prop (a # props) = (k @ 61 # v) @ 10 # format_module_prop props"
    using a by (simp add: format_module_prop_def)
  ultimately show ?case
    using Cons a by simp
qed

lemma isspace_simps [simp]: "isspace 10" "\<not> isspace 61"
  by (simp_all add: isspace_def)

lemma strip_plain_line:
  assumes "plain_item k v"
  shows "strip (k @ [61] @ v @ [10]) = k @ 61 # v"
proof -
  have front: "dropWhile isspace (k @ [61] @ v @ [10]) = k @ [61] @ v @ [10]"
    using assms by (cases k) (simp_all add: plain_item_def)
  have rear: "dropWhile isspace (rev v @ 61 # rev k) = rev v @ 61 # rev k"
    using assms by (cases "rev v") (simp_all add: plain_item_def)
  show ?thesis
    unfolding strip_def front using rear by simp
qed

lemma partition_plain_line:
  assumes "plain_item k v"
  shows "partition_eq (k @ 61 # v) = (k, v)"
proof -
  have "\<forall>c \<in> set k. c \<noteq> 61"
    using assms by (auto simp: plain_item_def)
  then show ?thesis
    by (simp add: partition_eq_def takeWhile_append2 dropWhile_append2)
qed

lemma parse_plain_line:
  assumes "plain_item k v"
  shows "parse_line d (k @ [61] @ v @ [10]) = dict_set d k v"
proof -
  have "\<not> startswith_hash (k @ 61 # v)"
    using assms by (cases k) (simp_all add: plain_item_def startswith_hash_def)
  then show ?thesis
    using strip_plain_line [OF assms] partition_plain_line [OF assms]
    by (simp add: parse_line_def Let_def)
qed

lemma dict_set_new:
  "k \<notin> fst ` set d \<Longrightarrow> dict_set d k v = d @ [(k, v)]"
  by (induction d) auto

lemma foldl_parse_plain:
  assumes "\<forall>(k, v) \<in> set props. plain_item k v"
    and "distinct (map fst props)"
    and "fst ` set d \<inter> fst ` set props = {}"
  shows "foldl parse_line d (map (\<lambda>(k, v). k @ [61] @ v @ [10]) props) = d @ props"
  using assms
proof (induction props arbitrary: d)
  case Nil
  then show ?case by simp
next
  case (Cons a props)
  obtain k v where a: "a = (k, v)" by (cases a)
  have pk: "plain_item k v" and new: "k \<notin> fst ` set d"
    using Cons.prems a by auto
  have step: "parse_line d (k @ [61] @ v @ [10]) = d @ [(k, v)]"
    by (simp only: parse_plain_line [OF pk] dict_set_new [OF new])
  have "fst ` set (d @ [(k, v)]) \<inter> fst ` set props = {}"
    using Cons.prems a by auto
  moreover have "\<forall>(k, v) \<in> set props. plain_item k v" and "distinct (map fst props)"
    using Cons.prems by simp_all
  ultimately have "foldl parse_line (d @ [(k, v)]) (map (\<lambda>(k, v). k @ [61] @ v @ [10]) props) =
      (d @ [(k, v)]) @ props"
    by (intro Cons.IH)
  then show ?case
    using a step by simp
qed

lemma format_no_cr:
  "\<forall>(k, v) \<in> set props. 13 \<notin> set (k @ v) \<Longrightarrow> 13 \<notin> set (format_module_prop props)"
proof (induction props)
  case Nil
  then show ?case by (simp add: format_module_prop_def)
next
  case (Cons a props)
  obtain k v where a: "a = (k, v)" by (cases a)
  have "format_module_prop (a # props) = k @ [61] @ v @ [10] @ format_module_prop props"
    using a by (simp add: format_module_prop_def)
  moreover have "13 \<notin> set (k @ v)" and "13 \<notin> set (format_module_prop props)"
    using Cons a by simp_all
  ultimately show ?case by simp
qed

lemma parse_format_plain:
  assumes "distinct (map fst props)" and "\<forall>(k, v) \<in> set props. plain_item k v"
  shows "parse_module_prop (format_module_prop props) = props"
proof -
  have "\<forall>(k, v) \<in> set props. 13 \<notin> set (k @ v)" and nl: "\<forall>(k, v) \<in> set props. 10 \<notin> set (k @ v)"
    using assms(2) by (auto simp: plain_item_def)
  then have "universal_newlines (format_module_prop props) = format_module_prop props"
    by (intro universal_newlines_id format_no_cr)
  then show ?thesis
    using foldl_parse_plain [OF assms(2) assms(1), of "[]"]
    by (simp add: parse_module_prop_def file_lines_items [OF nl])
qed

text \<open>
  Claim C3, as the code has it. The claim as stated fails: a comment line is dropped by
  the parser (as are blank space around a line, and a repeated key), so the output
  differs from the input. What holds: for a file made of plain lines \<open>key=value\<close>, each
  ended by a line feed, with pairwise distinct keys, the parser returns exactly these
  keys and values in the file's order, whatever the keys are, and serializing the result
  gives the file back unchanged.
\<close>

theorem module_prop_roundtrip_plain:
  assumes "distinct (map fst props)" and "\<forall>(k, v) \<in> set props. plain_item k v"
  shows "parse_module_prop (concat (map (\<lambda>(k, v). k @ [61] @ v @ [10]) props)) = props \<and>
         format_module_prop (parse_module_prop (concat (map (\<lambda>(k, v). k @ [61] @ v @ [10]) props))) =
           concat (map (\<lambda>(k, v). k @ [61] @ v @ [10]) props)"
  using parse_format_plain [OF assms] by (simp add: format_module_prop_def)

theorem module_prop_roundtrip_plain_witness:
  "parse_module_prop (ustr ''id=py2droid'' @ [10] @ ustr ''name=Py2Droid'' @ [10]) =
     [(ustr ''id'', ustr ''py2droid''), (ustr ''name'', ustr ''Py2Droid'')] \<and>
   format_module_prop (parse_module_prop (ustr ''id=py2droid'' @ [10] @ ustr ''name=Py2Droid'' @ [10])) =
     ustr ''id=py2droid'' @ [10] @ ustr ''name=Py2Droid'' @ [10]"
proof -
  have d: "distinct (map fst [(ustr ''id'', ustr ''py2droid''), (ustr ''name'', ustr ''Py2Droid'')])"
    by (simp add: ustr_def)
  have p: "\<forall>(k, v) \<in> set [(ustr ''id'', ustr ''py2droid''), (ustr ''name'', ustr ''Py2Droid'')].
      plain_item k v"
    by (simp add: ustr_def plain_item_def isspace_def)
  from module_prop_roundtrip_plain [OF d p] show ?thesis
    by (simp add: ustr_def format_module_prop_def)
qed

theorem module_prop_roundtrip_counterexample:
  "format_module_prop (parse_module_prop (ustr ''# module'' @ [10] @ ustr ''id=py2droid'' @ [10])) =
     ustr ''id=py2droid'' @ [10] \<and>
   ustr ''id=py2droid'' @ [10] \<noteq> ustr ''# module'' @ [10] @ ustr ''id=py2droid'' @ [10]"
  by (simp add: format_module_prop_def parse_module_prop_def parse_line_def ustr_def strip_def
      isspace_def startswith_hash_def partition_eq_def)

end
